theory Spec2Isabelle
  imports Main
begin

section \<open>The data model of myargs.h\<close>

text \<open>
  A C string is modelled by its content, a \<^typ>\<open>string\<close> (the bytes before the
  terminating NUL); a pointer that may be \<open>NULL\<close> is a \<^typ>\<open>string option\<close>, with
  \<open>None\<close> for \<open>NULL\<close>. The fields \<open>help\<close> and \<open>value\<close> of the C struct are
  called \<open>help_msg\<close> and \<open>val\<close> here, since the source's names are reserved words of
  Isabelle. The member \<open>count\<close> of an argument is written by \<open>add_arg\<close> only;
  \<open>add_kwarg\<close> and \<open>add_flag\<close> leave the freshly reallocated memory as it is, which
  is \<open>None\<close> here. The array \<open>arguments\<close> with its length \<open>count\<close> is a list.

  Allocation is taken to succeed: \<open>malloc\<close>, \<open>realloc\<close> and \<open>strdup\<close> of a string
  return what was asked for. A string that holds a NUL byte stands for no C string; the
  statements below hold for it too, but say nothing about the code there.
\<close>

datatype Type = FLAG | KWARG | ARG

record Argument =
  name :: string
  sym :: char
  required :: int
  help_msg :: "string option"
  type :: Type
  count :: "int option"
  def_val :: "string option"
  val :: "string option"

record ArgumentParser =
  program :: string
  usage :: string
  epilog :: string
  description :: string
  arguments :: "Argument list"

text \<open>
  What a call leaves behind besides the parser: the characters that it has sent to the
  two standard streams and that an observer of the process receives, and how the call
  ended. \<open>Strdup_NULL\<close> is the undefined behaviour of \<open>strdup(NULL)\<close> (a null pointer
  dereference inside the C library), \<open>Exit n\<close> is \<open>exit(n)\<close>. A function returns its
  ending (\<open>None\<close> when it came back to its caller) together with the state it reached.

  \<open>printf\<close> leaves its text in the buffer of the standard output. The text reaches
  the observer when the stream is flushed: by \<open>exit\<close>, or after a return when the process
  comes to its orderly end. A process that dies in \<open>strdup(NULL)\<close> never flushes: what
  the call had printed is lost. So at the ending \<open>Strdup_NULL\<close> every function hands
  back the standard output that it was given.
\<close>

datatype fault = Strdup_NULL | Exit int

record streams =
  stdout :: string
  stderr :: string

text \<open>
  \<open>EXIT_FAILURE\<close> is the macro of \<open>stdlib.h\<close>, with the value it has in the C
  libraries of the POSIX systems.
\<close>

definition EXIT_FAILURE :: int where
  "EXIT_FAILURE = 1"

section \<open>Declaring arguments\<close>

definition add_arg ::
  "ArgumentParser \<Rightarrow> char \<Rightarrow> string \<Rightarrow> int \<Rightarrow> int \<Rightarrow> string option \<Rightarrow> string option
    \<Rightarrow> ArgumentParser" where
  "add_arg parser s n req nargs default_value h =
     parser\<lparr>arguments := arguments parser @
       [\<lparr>name = n, sym = (if s \<noteq> CHR 0x00 then s else CHR ''0''), required = req,
         help_msg = h, type = ARG, count = Some nargs, def_val = default_value,
         val = None\<rparr>]\<rparr>"

definition add_kwarg ::
  "ArgumentParser \<Rightarrow> char \<Rightarrow> string \<Rightarrow> int \<Rightarrow> string option \<Rightarrow> string option
    \<Rightarrow> ArgumentParser" where
  "add_kwarg parser s n req default_value h =
     parser\<lparr>arguments := arguments parser @
       [\<lparr>name = n, sym = (if s \<noteq> CHR 0x00 then s else CHR ''0''), required = req,
         help_msg = h, type = KWARG, count = None, def_val = default_value,
         val = None\<rparr>]\<rparr>"

definition add_flag ::
  "ArgumentParser \<Rightarrow> char \<Rightarrow> string \<Rightarrow> string option \<Rightarrow> ArgumentParser" where
  "add_flag parser s n h =
     parser\<lparr>arguments := arguments parser @
       [\<lparr>name = n, sym = (if s \<noteq> CHR 0x00 then s else CHR ''0''), required = 0,
         help_msg = h, type = FLAG, count = None, def_val = None, val = None\<rparr>]\<rparr>"

definition new_parser ::
  "string \<Rightarrow> string \<Rightarrow> string \<Rightarrow> string \<Rightarrow> int \<Rightarrow> ArgumentParser" where
  "new_parser prog usg descr epi add_help =
     (let parser = \<lparr>program = prog, usage = usg, epilog = epi, description = descr,
                     arguments = []\<rparr>
      in if add_help \<noteq> 0
         then add_flag parser CHR ''h'' ''help'' (Some ''Shows this help Menu'')
         else parser)"

definition init_parser ::
  "ArgumentParser \<Rightarrow> string \<Rightarrow> string \<Rightarrow> string \<Rightarrow> string \<Rightarrow> int \<Rightarrow> ArgumentParser" where
  "init_parser parser prog usg descr epi add_help =
     (let parser' = parser\<lparr>program := prog, usage := usg, description := descr,
                           epilog := epi, arguments := []\<rparr>
      in if add_help \<noteq> 0
         then add_flag parser' CHR ''h'' ''help'' (Some ''Shows this help Menu'')
         else parser')"

section \<open>Parsing\<close>

text \<open>
  \<open>value = strchr(arg, '='); if (value) { *value = '\0'; value++; } else value = NULL;\<close>
  leaves in \<open>arg\<close> the text before the first \<open>=\<close> and in \<open>value\<close> the text after it,
  or \<open>NULL\<close> when there is no \<open>=\<close>.
\<close>

definition split_eq :: "string \<Rightarrow> string \<times> string option" where
  "split_eq s =
     (takeWhile (\<lambda>c. c \<noteq> CHR ''='') s,
      if CHR ''='' \<in> set s then Some (tl (dropWhile (\<lambda>c. c \<noteq> CHR ''='') s)) else None)"

text \<open>\<open>a.value = strdup(v)\<close>: undefined for a null \<open>v\<close>.\<close>

definition store_dup :: "string option \<Rightarrow> Argument \<Rightarrow> fault option \<times> Argument" where
  "store_dup v a = (case v of None \<Rightarrow> (Some Strdup_NULL, a) | Some s \<Rightarrow> (None, a\<lparr>val := Some s\<rparr>))"

text \<open>
  The first loop of the long and of the bare form (lines 384-391 and 454-461): the first
  argument of that name, whatever its type, takes a copy of the value.
\<close>

fun assign_name ::
  "string \<Rightarrow> string option \<Rightarrow> Argument list \<Rightarrow> fault option \<times> Argument list" where
  "assign_name arg v [] = (None, [])"
| "assign_name arg v (a # rest) =
     (if name a = arg then (case store_dup v a of (f, a') \<Rightarrow> (f, a' # rest))
      else (case assign_name arg v rest of (f, rest') \<Rightarrow> (f, a # rest')))"

text \<open>
  The second loop (lines 392-404 and 462-474): the first argument of that name that is a
  flag or a keyword argument.
\<close>

fun assign_name_kind ::
  "string \<Rightarrow> string option \<Rightarrow> Argument list \<Rightarrow> fault option \<times> Argument list" where
  "assign_name_kind arg v [] = (None, [])"
| "assign_name_kind arg v (a # rest) =
     (if name a = arg \<and> type a = FLAG then (None, a\<lparr>val := Some ''true''\<rparr> # rest)
      else if name a = arg \<and> type a = KWARG
      then (case store_dup v a of (f, a') \<Rightarrow> (f, a' # rest))
      else (case assign_name_kind arg v rest of (f, rest') \<Rightarrow> (f, a # rest')))"

definition match_name ::
  "string \<Rightarrow> string option \<Rightarrow> Argument list \<Rightarrow> fault option \<times> Argument list" where
  "match_name arg v args =
     (case assign_name arg v args of
        (None, args') \<Rightarrow> assign_name_kind arg v args'
      | (Some f, args') \<Rightarrow> (Some f, args'))"

text \<open>The inner loop of the short form (lines 424-436), for one character of the cluster.\<close>

fun assign_sym ::
  "char \<Rightarrow> string option \<Rightarrow> Argument list \<Rightarrow> fault option \<times> Argument list" where
  "assign_sym c v [] = (None, [])"
| "assign_sym c v (a # rest) =
     (if sym a = c \<and> type a = FLAG then (None, a\<lparr>val := Some ''true''\<rparr> # rest)
      else if sym a = c \<and> type a = KWARG
      then (case store_dup v a of (f, a') \<Rightarrow> (f, a' # rest))
      else (case assign_sym c v rest of (f, rest') \<Rightarrow> (f, a # rest')))"

text \<open>The outer loop of the short form (lines 422-437), over the characters of \<open>arg\<close>.\<close>

fun assign_cluster ::
  "string \<Rightarrow> string option \<Rightarrow> Argument list \<Rightarrow> fault option \<times> Argument list" where
  "assign_cluster [] v args = (None, args)"
| "assign_cluster (c # cs) v args =
     (case assign_sym c v args of
        (None, args') \<Rightarrow> assign_cluster cs v args'
      | (Some f, args') \<Rightarrow> (Some f, args'))"

text \<open>
  One iteration of the loop over \<open>argv\<close> (lines 371-475). \<open>strncmp(tok, "--", 2) == 0\<close>
  holds when the token starts with two dashes, \<open>strncmp(tok, "-", 1) == 0\<close> when it
  starts with one. The bare form prints \<open>arg\<close> after the token has been cut at its
  \<open>=\<close> (line 453), before its two loops; the text is received only if they do not
  end in \<open>strdup(NULL)\<close>.
\<close>

definition parse_token ::
  "string \<Rightarrow> Argument list \<times> string \<Rightarrow> fault option \<times> Argument list \<times> string" where
  "parse_token tok st =
     (case st of (args, out) \<Rightarrow>
        if take 2 tok = ''--'' then
          (case split_eq (drop 2 tok) of (arg, v) \<Rightarrow>
             (case match_name arg v args of (f, args') \<Rightarrow> (f, args', out)))
        else if take 1 tok = ''-'' then
          (case split_eq (drop 1 tok) of (arg, v) \<Rightarrow>
             (case assign_cluster arg v args of (f, args') \<Rightarrow> (f, args', out)))
        else
          (case split_eq tok of (arg, v) \<Rightarrow>
             (case match_name arg v args of
                (f, args') \<Rightarrow> (f, args', if f = None then out @ arg else out))))"

text \<open>
  The loop over the tokens \<open>argv[1]\<close> ... \<open>argv[argc - 1]\<close> (line 369). The caller
  passes in \<open>argc\<close> the length of \<open>argv\<close>, as \<open>main\<close> receives them; \<open>parse_args\<close>
  below reads no token beyond the end of \<open>argv\<close>. The cut that the loop makes in a
  token of \<open>argv\<close> is seen by that iteration only, and \<open>argv\<close> is not returned. When
  a later iteration ends in \<open>strdup(NULL)\<close>, the text that the earlier ones have printed
  is lost with it.
\<close>

fun scan_tokens ::
  "string list \<Rightarrow> Argument list \<times> string \<Rightarrow> fault option \<times> Argument list \<times> string" where
  "scan_tokens [] st = (None, st)"
| "scan_tokens (tok # toks) st =
     (case parse_token tok st of
        (None, st') \<Rightarrow>
          (case scan_tokens toks st' of
             (f, args'', out'') \<Rightarrow> (f, args'', if f = None then out'' else snd st))
      | (Some f, st') \<Rightarrow> (Some f, st'))"

text \<open>
  The loop after the scan (lines 478-489). \<open>missing\<close> is the test of line 480,
  \<open>take_default\<close> the statement of lines 485-488. In \<open>check_required\<close>,
  \<open>seen\<close> holds the arguments the loop has passed and \<open>a # rest\<close> those from
  index \<open>i\<close> on; the state it returns at \<open>exit\<close> is the memory at that moment.
\<close>

definition missing :: "Argument \<Rightarrow> bool" where
  "missing a \<longleftrightarrow> required a \<noteq> 0 \<and> val a = None"

definition take_default :: "Argument \<Rightarrow> Argument" where
  "take_default a = (if val a = None then a\<lparr>val := def_val a\<rparr> else a)"

fun check_required ::
  "Argument list \<Rightarrow> Argument list \<Rightarrow> string \<Rightarrow> fault option \<times> Argument list \<times> string" where
  "check_required seen [] err = (None, seen, err)"
| "check_required seen (a # rest) err =
     (if missing a then
        (Some (Exit EXIT_FAILURE), seen @ a # rest,
         err @ ''Missing required argument: '' @ name a @ [CHR 0x0A])
      else check_required (seen @ [take_default a]) rest err)"

definition parse_args ::
  "ArgumentParser \<Rightarrow> int \<Rightarrow> string list \<Rightarrow> streams
    \<Rightarrow> fault option \<times> ArgumentParser \<times> streams" where
  "parse_args parser argc argv io =
     (case scan_tokens (drop 1 (take (nat argc) argv)) (arguments parser, stdout io) of
        (Some f, args, out) \<Rightarrow> (Some f, parser\<lparr>arguments := args\<rparr>, io\<lparr>stdout := out\<rparr>)
      | (None, args, out) \<Rightarrow>
          (case check_required [] args (stderr io) of
             (f, args', err) \<Rightarrow>
               (f, parser\<lparr>arguments := args'\<rparr>, io\<lparr>stdout := out, stderr := err\<rparr>)))"

section \<open>Reading the values\<close>

definition get_arg :: "ArgumentParser \<Rightarrow> string \<Rightarrow> string option" where
  "get_arg parser n =
     (case find (\<lambda>a. name a = n) (arguments parser) of
        None \<Rightarrow> None
      | Some a \<Rightarrow>
          if type a = ARG then (if val a \<noteq> None then val a else def_val a) else None)"

definition get_kwarg :: "ArgumentParser \<Rightarrow> string \<Rightarrow> string option" where
  "get_kwarg parser n =
     (case find (\<lambda>a. name a = n) (arguments parser) of
        None \<Rightarrow> None
      | Some a \<Rightarrow>
          if type a = KWARG then (if val a \<noteq> None then val a else def_val a) else None)"

definition get_flag :: "ArgumentParser \<Rightarrow> string \<Rightarrow> int" where
  "get_flag parser n =
     (case find (\<lambda>a. name a = n) (arguments parser) of
        None \<Rightarrow> 0
      | Some a \<Rightarrow> if type a = FLAG then (if val a \<noteq> None then 1 else 0) else 0)"

section \<open>Auxiliary notions\<close>

text \<open>
  The declaration of an argument is the argument without its value. What a token writes
  into the argument at index \<open>i\<close> is the value that argument has after the token has
  been parsed alone against the declarations: \<open>None\<close> when the token leaves it alone.
\<close>

definition clear :: "Argument \<Rightarrow> Argument" where
  "clear a = a\<lparr>val := None\<rparr>"

definition written :: "string \<Rightarrow> Argument list \<Rightarrow> nat \<Rightarrow> string option" where
  "written tok args i = val (fst (snd (parse_token tok (map clear args, []))) ! i)"

text \<open>
  How one step changes a pair of arguments that carry the same declaration: both stay as
  they are, or both take the same string.
\<close>

definition same_write :: "Argument \<times> Argument \<Rightarrow> Argument \<times> Argument \<Rightarrow> bool" where
  "same_write p q \<longleftrightarrow>
     q = p \<or>
     (val (fst q) \<noteq> None \<and> fst q = (fst p)\<lparr>val := val (fst q)\<rparr> \<and>
      snd q = (snd p)\<lparr>val := val (fst q)\<rparr>)"

text \<open>
  The value of an argument that held \<open>cur\<close> after a token has written \<open>w\<close> into
  it; \<open>foldl overwrite\<close> follows the tokens one after the other.
\<close>

definition overwrite :: "string option \<Rightarrow> string option \<Rightarrow> string option" where
  "overwrite cur w = (case w of None \<Rightarrow> cur | Some s \<Rightarrow> Some s)"

section \<open>Lemmas about the loops\<close>

subsection \<open>Splitting a token\<close>

lemma takeWhile_no_eq: "CHR ''='' \<notin> set n \<Longrightarrow> takeWhile (\<lambda>c. c \<noteq> CHR ''='') n = n"
  by (induction n) auto

lemma split_eq_with: "CHR ''='' \<notin> set n \<Longrightarrow> split_eq (n @ CHR ''='' # v) = (n, Some v)"
  by (induction n) (auto simp: split_eq_def)

lemma split_eq_without: "CHR ''='' \<notin> set n \<Longrightarrow> split_eq n = (n, None)"
  by (simp add: split_eq_def takeWhile_no_eq)

lemma fst_split_eq: "fst (split_eq s) = takeWhile (\<lambda>c. c \<noteq> CHR ''='') s"
  by (simp add: split_eq_def)

subsection \<open>The shape of the table\<close>

lemma clear_val_update: "clear (a\<lparr>val := x\<rparr>) = clear a"
  by (simp add: clear_def)

lemma store_dup_clear: "clear (snd (store_dup v a)) = clear a"
  by (simp add: store_dup_def clear_val_update split: option.split)

lemma assign_name_clear: "map clear (snd (assign_name arg v args)) = map clear args"
  by (induction args) (simp_all add: split_beta store_dup_clear)

lemma assign_name_kind_clear: "map clear (snd (assign_name_kind arg v args)) = map clear args"
  by (induction args) (simp_all add: split_beta store_dup_clear clear_val_update)

lemma assign_sym_clear: "map clear (snd (assign_sym c v args)) = map clear args"
  by (induction args) (simp_all add: split_beta store_dup_clear clear_val_update)

lemma match_name_clear: "map clear (snd (match_name arg v args)) = map clear args"
  by (simp add: match_name_def split_beta assign_name_clear assign_name_kind_clear
           split: option.split)

lemma assign_cluster_clear: "map clear (snd (assign_cluster cs v args)) = map clear args"
  by (induction cs arbitrary: args)
     (simp_all add: split_beta assign_sym_clear split: option.split)

lemma parse_token_clear: "map clear (fst (snd (parse_token tok st))) = map clear (fst st)"
  by (simp add: parse_token_def split_beta match_name_clear assign_cluster_clear)

lemma scan_tokens_clear: "map clear (fst (snd (scan_tokens toks st))) = map clear (fst st)"
  by (induction toks arbitrary: st)
     (simp_all add: split_beta parse_token_clear split: option.split)


lemma map_clear_length: "map clear xs = map clear ys \<Longrightarrow> length xs = length ys"
  by (rule map_eq_imp_length_eq)

lemma map_clear_nth:
  assumes "map clear xs = map clear ys" and "i < length xs"
  shows "name (xs ! i) = name (ys ! i)" and "sym (xs ! i) = sym (ys ! i)"
    and "type (xs ! i) = type (ys ! i)" and "required (xs ! i) = required (ys ! i)"
    and "def_val (xs ! i) = def_val (ys ! i)"
proof -
  have len: "i < length ys" using map_clear_length [OF assms(1)] assms(2) by simp
  have "map clear xs ! i = map clear ys ! i" using assms(1) by simp
  then have eq: "clear (xs ! i) = clear (ys ! i)" using assms(2) len by simp
  have "name (clear (xs ! i)) = name (clear (ys ! i))" using eq by simp
  then show "name (xs ! i) = name (ys ! i)" by (simp add: clear_def)
  have "sym (clear (xs ! i)) = sym (clear (ys ! i))" using eq by simp
  then show "sym (xs ! i) = sym (ys ! i)" by (simp add: clear_def)
  have "type (clear (xs ! i)) = type (clear (ys ! i))" using eq by simp
  then show "type (xs ! i) = type (ys ! i)" by (simp add: clear_def)
  have "required (clear (xs ! i)) = required (clear (ys ! i))" using eq by simp
  then show "required (xs ! i) = required (ys ! i)" by (simp add: clear_def)
  have "def_val (clear (xs ! i)) = def_val (clear (ys ! i))" using eq by simp
  then show "def_val (xs ! i) = def_val (ys ! i)" by (simp add: clear_def)
qed

subsection \<open>The first match of a loop\<close>

lemma assign_name_first:
  "i < length args \<Longrightarrow> name (args ! i) = n \<Longrightarrow> \<forall>j<i. name (args ! j) \<noteq> n \<Longrightarrow>
   assign_name n (Some s) args = (None, args[i := (args ! i)\<lparr>val := Some s\<rparr>])"
proof (induction args arbitrary: i)
  case Nil
  then show ?case by simp
next
  case (Cons a rest)
  show ?case
  proof (cases i)
    case 0
    with Cons.prems show ?thesis by (simp add: store_dup_def)
  next
    case (Suc k)
    with Cons.prems have head: "name a \<noteq> n" by auto
    from Suc Cons.prems have "k < length rest" "name (rest ! k) = n" by simp_all
    moreover from Suc Cons.prems have "\<forall>j<k. name (rest ! j) \<noteq> n" by auto
    ultimately have "assign_name n (Some s) rest = (None, rest[k := (rest ! k)\<lparr>val := Some s\<rparr>])"
      by (rule Cons.IH)
    with head Suc show ?thesis by simp
  qed
qed

lemma assign_name_kind_first:
  "i < length args \<Longrightarrow> name (args ! i) = n \<Longrightarrow> type (args ! i) \<noteq> ARG \<Longrightarrow>
   type (args ! i) = FLAG \<or> v = Some s \<Longrightarrow>
   \<forall>j<i. name (args ! j) = n \<longrightarrow> type (args ! j) = ARG \<Longrightarrow>
   assign_name_kind n v args =
     (None, args[i := (args ! i)\<lparr>val := Some (if type (args ! i) = FLAG then ''true'' else s)\<rparr>])"
proof (induction args arbitrary: i)
  case Nil
  then show ?case by simp
next
  case (Cons a rest)
  show ?case
  proof (cases i)
    case 0
    with Cons.prems show ?thesis by (cases "type a") (auto simp: store_dup_def)
  next
    case (Suc k)
    with Cons.prems have head: "name a = n \<longrightarrow> type a = ARG" by auto
    from Suc Cons.prems have "k < length rest" "name (rest ! k) = n" "type (rest ! k) \<noteq> ARG"
      "type (rest ! k) = FLAG \<or> v = Some s" by simp_all
    moreover from Suc Cons.prems have "\<forall>j<k. name (rest ! j) = n \<longrightarrow> type (rest ! j) = ARG"
      by auto
    ultimately have "assign_name_kind n v rest =
        (None, rest[k := (rest ! k)\<lparr>val := Some (if type (rest ! k) = FLAG then ''true'' else s)\<rparr>])"
      by (rule Cons.IH)
    with head Suc show ?thesis by auto
  qed
qed

lemma assign_sym_first:
  "i < length args \<Longrightarrow> sym (args ! i) = c \<Longrightarrow> type (args ! i) \<noteq> ARG \<Longrightarrow>
   type (args ! i) = FLAG \<or> v = Some s \<Longrightarrow>
   \<forall>j<i. sym (args ! j) = c \<longrightarrow> type (args ! j) = ARG \<Longrightarrow>
   assign_sym c v args =
     (None, args[i := (args ! i)\<lparr>val := Some (if type (args ! i) = FLAG then ''true'' else s)\<rparr>])"
proof (induction args arbitrary: i)
  case Nil
  then show ?case by simp
next
  case (Cons a rest)
  show ?case
  proof (cases i)
    case 0
    with Cons.prems show ?thesis by (cases "type a") (auto simp: store_dup_def)
  next
    case (Suc k)
    with Cons.prems have head: "sym a = c \<longrightarrow> type a = ARG" by auto
    from Suc Cons.prems have "k < length rest" "sym (rest ! k) = c" "type (rest ! k) \<noteq> ARG"
      "type (rest ! k) = FLAG \<or> v = Some s" by simp_all
    moreover from Suc Cons.prems have "\<forall>j<k. sym (rest ! j) = c \<longrightarrow> type (rest ! j) = ARG"
      by auto
    ultimately have "assign_sym c v rest =
        (None, rest[k := (rest ! k)\<lparr>val := Some (if type (rest ! k) = FLAG then ''true'' else s)\<rparr>])"
      by (rule Cons.IH)
    with head Suc show ?thesis by auto
  qed
qed

lemma assign_name_kind_keeps_ARG:
  "i < length args \<Longrightarrow> type (args ! i) = ARG \<Longrightarrow> snd (assign_name_kind n v args) ! i = args ! i"
proof (induction args arbitrary: i)
  case Nil
  then show ?case by simp
next
  case (Cons a rest)
  then show ?case by (cases i) (auto simp: split_beta)
qed

lemma assign_name_kind_Some: "fst (assign_name_kind n (Some s) args) = None"
  by (induction args) (simp_all add: split_beta store_dup_def)

lemma find_first:
  "i < length xs \<Longrightarrow> P (xs ! i) \<Longrightarrow> \<forall>j<i. \<not> P (xs ! j) \<Longrightarrow> find P xs = Some (xs ! i)"
proof (induction xs arbitrary: i)
  case Nil
  then show ?case by simp
next
  case (Cons x xs)
  show ?case
  proof (cases i)
    case 0
    with Cons.prems show ?thesis by simp
  next
    case (Suc k)
    with Cons.prems have "\<not> P x" by auto
    moreover from Suc Cons.prems have "find P xs = Some (xs ! k)"
      by (intro Cons.IH) auto
    ultimately show ?thesis using Suc by simp
  qed
qed


subsection \<open>The loop after the scan\<close>

lemma check_required_state:
  "fst (snd (check_required seen args err)) =
     seen @ map take_default (takeWhile (\<lambda>a. \<not> missing a) args) @ dropWhile (\<lambda>a. \<not> missing a) args"
  by (induction args arbitrary: seen) simp_all

lemma check_required_ending:
  "fst (check_required seen args err) =
     (if \<exists>a\<in>set args. missing a then Some (Exit EXIT_FAILURE) else None)"
  by (induction args arbitrary: seen) simp_all

lemma prefix_mapped_nth:
  assumes "i < length xs"
  shows "(map g (takeWhile P xs) @ dropWhile P xs) ! i =
           (if i < length (takeWhile P xs) then g (xs ! i) else xs ! i)"
proof (cases "i < length (takeWhile P xs)")
  case True
  then show ?thesis by (simp add: nth_append takeWhile_nth)
next
  case False
  have "length (takeWhile P xs) + length (dropWhile P xs) = length xs"
    by (metis length_append takeWhile_dropWhile_id)
  with False assms have "i - length (takeWhile P xs) < length (dropWhile P xs)" by arith
  then have "dropWhile P xs ! (i - length (takeWhile P xs)) =
               xs ! (i - length (takeWhile P xs) + length (takeWhile P xs))"
    by (rule dropWhile_nth)
  with False show ?thesis by (simp add: nth_append)
qed

lemma clear_take_default: "clear (take_default a) = clear a"
  by (simp add: take_default_def clear_val_update)

lemma prefix_mapped_clear:
  "map clear (map take_default (takeWhile P xs) @ dropWhile P xs) = map clear xs"
  by (induction xs) (simp_all add: clear_take_default)

lemma prefix_mapped_all:
  "\<forall>a\<in>set xs. P a \<Longrightarrow> map g (takeWhile P xs) @ dropWhile P xs = map g xs"
  by (induction xs) simp_all

lemma check_required_clear:
  "map clear (fst (snd (check_required [] args err))) = map clear args"
  by (simp only: check_required_state append_Nil prefix_mapped_clear)

lemma check_required_keeps:
  assumes "i < length args" and "val (args ! i) \<noteq> None"
  shows "fst (snd (check_required [] args err)) ! i = args ! i"
  using assms by (auto simp: check_required_state prefix_mapped_nth take_default_def)

lemma check_required_defaults:
  assumes "fst (check_required [] args err) = None"
  shows "fst (snd (check_required [] args err)) = map take_default args"
proof -
  from assms have "\<forall>a\<in>set args. \<not> missing a"
    by (simp add: check_required_ending split: if_splits)
  then show ?thesis
    by (simp only: check_required_state append_Nil prefix_mapped_all)
qed

subsection \<open>The whole call\<close>

lemma parse_args_scan_fault:
  assumes "scan_tokens (drop 1 (take (nat argc) argv)) (arguments p, stdout io) = (Some e, args1, out1)"
  shows "parse_args p argc argv io = (Some e, p\<lparr>arguments := args1\<rparr>, io\<lparr>stdout := out1\<rparr>)"
  using assms by (simp add: parse_args_def)

lemma parse_args_scan_done:
  assumes "scan_tokens (drop 1 (take (nat argc) argv)) (arguments p, stdout io) = (None, args1, out1)"
  shows "parse_args p argc argv io =
           (fst (check_required [] args1 (stderr io)),
            p\<lparr>arguments := fst (snd (check_required [] args1 (stderr io)))\<rparr>,
            io\<lparr>stdout := out1, stderr := snd (snd (check_required [] args1 (stderr io)))\<rparr>)"
  using assms by (simp add: parse_args_def split_beta)

lemma parse_args_clear:
  "map clear (arguments (fst (snd (parse_args p argc argv io)))) = map clear (arguments p)"
proof (cases "scan_tokens (drop 1 (take (nat argc) argv)) (arguments p, stdout io)")
  case (fields f1 args1 out1)
  have scan: "map clear args1 = map clear (arguments p)"
    using scan_tokens_clear [of "drop 1 (take (nat argc) argv)" "(arguments p, stdout io)"] fields
    by simp
  show ?thesis
  proof (cases f1)
    case None
    with fields scan show ?thesis
      by (simp add: parse_args_scan_done check_required_clear)
  next
    case (Some e)
    with fields scan show ?thesis
      by (simp add: parse_args_scan_fault)
  qed
qed

subsection \<open>Lookup by name\<close>

lemma find_name_kind:
  assumes "\<forall>a\<in>set xs. name a = n \<longrightarrow> type a \<noteq> k"
  shows "find (\<lambda>a. name a = n) xs = None \<or>
         (\<exists>a. find (\<lambda>a. name a = n) xs = Some a \<and> type a \<noteq> k)"
proof (cases "find (\<lambda>a. name a = n) xs")
  case None
  then show ?thesis by simp
next
  case (Some a)
  then have "a \<in> set xs" "name a = n"
    by (auto simp: find_Some_iff)
  with assms Some show ?thesis by simp
qed

lemma first_named_transfer:
  assumes same: "map clear ys = map clear xs"
      and i: "i < length xs" and n: "name (xs ! i) = n" and first: "\<forall>j<i. name (xs ! j) \<noteq> n"
  shows "find (\<lambda>a. name a = n) ys = Some (ys ! i)"
proof -
  have len: "length ys = length xs" using same by (rule map_clear_length)
  have "name (ys ! i) = n" using map_clear_nth(1) [OF same, of i] i n len by simp
  moreover have "\<forall>j<i. name (ys ! j) \<noteq> n"
  proof (intro allI impI)
    fix j assume "j < i"
    with i len have "j < length ys" by simp
    from map_clear_nth(1) [OF same this] first \<open>j < i\<close> show "name (ys ! j) \<noteq> n" by simp
  qed
  ultimately show ?thesis using i len by (intro find_first) simp_all
qed

lemma kwarg_then_flag_first:
  assumes "add_help \<noteq> 0 \<longrightarrow> m \<noteq> ''help''"
  shows "\<exists>i<length (arguments (add_flag (add_kwarg (new_parser prog usg descr epi add_help) s1 m req d h1) s2 m h2)).
           name (arguments (add_flag (add_kwarg (new_parser prog usg descr epi add_help) s1 m req d h1) s2 m h2) ! i) = m \<and>
           type (arguments (add_flag (add_kwarg (new_parser prog usg descr epi add_help) s1 m req d h1) s2 m h2) ! i) = KWARG \<and>
           (\<forall>j<i. name (arguments (add_flag (add_kwarg (new_parser prog usg descr epi add_help) s1 m req d h1) s2 m h2) ! j) \<noteq> m)"
proof (cases "add_help = 0")
  case True
  then show ?thesis
    by (intro exI [of _ 0]) (simp add: new_parser_def add_flag_def add_kwarg_def)
next
  case False
  with assms have "m \<noteq> ''help''" by simp
  with False show ?thesis
    by (intro exI [of _ 1]) (simp add: new_parser_def add_flag_def add_kwarg_def)
qed

subsection \<open>The first argument that is missing\<close>

lemma first_index_exists:
  "\<exists>a\<in>set xs. P a \<Longrightarrow> \<exists>k<length xs. P (xs ! k) \<and> (\<forall>j<k. \<not> P (xs ! j))"
proof (induction xs)
  case Nil
  then show ?case by simp
next
  case (Cons x xs)
  show ?case
  proof (cases "P x")
    case True
    then have "0 < length (x # xs) \<and> P ((x # xs) ! 0) \<and> (\<forall>j<0. \<not> P ((x # xs) ! j))" by simp
    then show ?thesis by blast
  next
    case False
    with Cons.prems have "\<exists>a\<in>set xs. P a" by simp
    then obtain k where k: "k < length xs" "P (xs ! k)" "\<forall>j<k. \<not> P (xs ! j)"
      using Cons.IH by blast
    have "\<forall>j<Suc k. \<not> P ((x # xs) ! j)"
    proof (intro allI impI)
      fix j assume "j < Suc k"
      with False k(3) show "\<not> P ((x # xs) ! j)" by (cases j) simp_all
    qed
    with k have "Suc k < length (x # xs) \<and> P ((x # xs) ! Suc k) \<and> (\<forall>j<Suc k. \<not> P ((x # xs) ! j))"
      by simp
    then show ?thesis by blast
  qed
qed

lemma check_required_first:
  "k < length args \<Longrightarrow> missing (args ! k) \<Longrightarrow> \<forall>j<k. \<not> missing (args ! j) \<Longrightarrow>
   check_required seen args err =
     (Some (Exit EXIT_FAILURE), seen @ map take_default (take k args) @ drop k args,
      err @ ''Missing required argument: '' @ name (args ! k) @ [CHR 0x0A])"
proof (induction args arbitrary: k seen)
  case Nil
  then show ?case by simp
next
  case (Cons a rest)
  show ?case
  proof (cases k)
    case 0
    with Cons.prems show ?thesis by simp
  next
    case (Suc m)
    with Cons.prems have head: "\<not> missing a" by auto
    from Suc Cons.prems have "m < length rest" "missing (rest ! m)" by simp_all
    moreover from Suc Cons.prems have "\<forall>j<m. \<not> missing (rest ! j)" by auto
    ultimately have "check_required (seen @ [take_default a]) rest err =
        (Some (Exit EXIT_FAILURE),
         (seen @ [take_default a]) @ map take_default (take m rest) @ drop m rest,
         err @ ''Missing required argument: '' @ name (rest ! m) @ [CHR 0x0A])"
      by (rule Cons.IH)
    with head Suc show ?thesis by simp
  qed
qed

subsection \<open>A long token with a value\<close>

lemma parse_args_single:
  assumes "parse_token tok (arguments p, stdout io) = (None, args1, out1)"
  shows "parse_args p 2 [prog, tok] io =
           (fst (check_required [] args1 (stderr io)),
            p\<lparr>arguments := fst (snd (check_required [] args1 (stderr io)))\<rparr>,
            io\<lparr>stdout := out1, stderr := snd (snd (check_required [] args1 (stderr io)))\<rparr>)"
proof -
  from assms have "scan_tokens (drop 1 (take (nat 2) [prog, tok])) (arguments p, stdout io) =
      (None, args1, out1)" by simp
  then show ?thesis by (rule parse_args_scan_done)
qed

lemma check_required_no_strdup: "fst (check_required seen args err) \<noteq> Some Strdup_NULL"
  by (simp add: check_required_ending)

lemma long_token_value:
  assumes i: "i < length args" and n: "name (args ! i) = n"
      and first: "\<forall>j<i. name (args ! j) \<noteq> n" and eq: "CHR ''='' \<notin> set n"
  shows "parse_token (''--'' @ n @ ''='' @ v) (args, out) =
           (None, snd (assign_name_kind n (Some v) (args[i := (args ! i)\<lparr>val := Some v\<rparr>])), out)"
proof -
  have "split_eq (n @ CHR ''='' # v) = (n, Some v)" using eq by (rule split_eq_with)
  moreover have "assign_name n (Some v) args = (None, args[i := (args ! i)\<lparr>val := Some v\<rparr>])"
    using i n first by (rule assign_name_first)
  ultimately show ?thesis
    by (simp add: parse_token_def match_name_def split_beta assign_name_kind_Some)
qed

subsection \<open>The short form\<close>

lemma short_token_one:
  assumes "i < length args" and "sym (args ! i) = c" and "type (args ! i) \<noteq> ARG"
      and "type (args ! i) = FLAG \<or> w = Some s"
      and "\<forall>j<i. sym (args ! j) = c \<longrightarrow> type (args ! j) = ARG"
  shows "assign_cluster [c] w args =
           (None, args[i := (args ! i)\<lparr>val := Some (if type (args ! i) = FLAG then ''true'' else s)\<rparr>])"
  using assign_sym_first [OF assms] by simp

subsection \<open>The echo of a bare token\<close>

lemma two_dashes_one: "take 2 tok = ''--'' \<Longrightarrow> take 1 tok = ''-''"
proof (cases tok)
  case Nil
  then show "take 2 tok = ''--'' \<Longrightarrow> take 1 tok = ''-''" by simp
next
  case (Cons c cs)
  then show "take 2 tok = ''--'' \<Longrightarrow> take 1 tok = ''-''" by (cases cs) simp_all
qed

lemma parse_token_stdout:
  "snd (snd (parse_token tok (args, out))) =
     (if take 1 tok = ''-'' \<or> fst (parse_token tok (args, out)) \<noteq> None then out
      else out @ takeWhile (\<lambda>c. c \<noteq> CHR ''='') tok)"
proof (cases "take 2 tok = ''--''")
  case True
  with two_dashes_one [OF True] show ?thesis by (simp add: parse_token_def split_beta)
next
  case False
  then show ?thesis by (auto simp: parse_token_def split_beta fst_split_eq)
qed

lemma scan_tokens_fault_stdout:
  "fst (scan_tokens toks st) \<noteq> None \<Longrightarrow> snd (snd (scan_tokens toks st)) = snd st"
proof (induction toks arbitrary: st)
  case Nil
  then show ?case by simp
next
  case (Cons tok toks)
  show ?case
  proof (cases "fst (parse_token tok st)")
    case None
    with Cons.prems show ?thesis by (auto simp: split_beta)
  next
    case (Some e)
    with parse_token_stdout [of tok "fst st" "snd st"] show ?thesis
      by (simp add: split_beta)
  qed
qed

lemma scan_tokens_stdout:
  "fst (scan_tokens toks (args, out)) = None \<Longrightarrow>
   snd (snd (scan_tokens toks (args, out))) =
     out @ concat (map (takeWhile (\<lambda>c. c \<noteq> CHR ''=''))
                    (filter (\<lambda>t. take 1 t \<noteq> ''-'') toks))"
proof (induction toks arbitrary: args out)
  case Nil
  then show ?case by simp
next
  case (Cons tok toks)
  obtain f1 args1 out1 where one: "parse_token tok (args, out) = (f1, args1, out1)"
    by (cases "parse_token tok (args, out)")
  with Cons.prems have f1: "f1 = None" by (cases f1) simp_all
  with one Cons.prems have rest: "fst (scan_tokens toks (args1, out1)) = None"
    by (simp add: split_beta)
  then have "snd (snd (scan_tokens toks (args1, out1))) =
     out1 @ concat (map (takeWhile (\<lambda>c. c \<noteq> CHR ''=''))
                    (filter (\<lambda>t. take 1 t \<noteq> ''-'') toks))"
    by (rule Cons.IH)
  moreover have "out1 = (if take 1 tok = ''-'' then out else out @ takeWhile (\<lambda>c. c \<noteq> CHR ''='') tok)"
    using parse_token_stdout [of tok args out] one f1 by simp
  ultimately show ?case using one f1 rest by (simp add: split_beta)
qed

lemma parse_args_stdout:
  "stdout (snd (snd (parse_args p argc argv io))) =
     snd (snd (scan_tokens (drop 1 (take (nat argc) argv)) (arguments p, stdout io)))"
  by (simp add: parse_args_def split_beta split: option.split)

subsection \<open>Two runs over the same declarations\<close>

lemma same_write_refl: "same_write p p"
  by (simp add: same_write_def)

lemma same_write_trans: "same_write p q \<Longrightarrow> same_write q r \<Longrightarrow> same_write p r"
  by (auto simp: same_write_def)

lemma same_write_list_refl: "list_all2 same_write xs xs"
  by (rule list_all2_refl) (rule same_write_refl)

lemma same_write_list_trans:
  "list_all2 same_write xs ys \<Longrightarrow> list_all2 same_write ys zs \<Longrightarrow> list_all2 same_write xs zs"
  using list_all2_trans [of same_write same_write same_write xs ys zs] same_write_trans
  by blast

lemma same_decl_iff: "map clear xs = map clear ys \<longleftrightarrow> list_all2 (\<lambda>a b. clear a = clear b) xs ys"
proof -
  have "map clear xs = map clear ys \<longleftrightarrow> list_all2 (=) (map clear xs) (map clear ys)"
    by (simp add: list.rel_eq)
  then show ?thesis by (simp add: list_all2_map1 list_all2_map2)
qed

lemma clear_fields:
  assumes "clear a = clear b"
  shows "name a = name b" and "sym a = sym b" and "type a = type b"
proof -
  have "name (clear a) = name (clear b)" "sym (clear a) = sym (clear b)"
    "type (clear a) = type (clear b)" using assms by simp_all
  then show "name a = name b" and "sym a = sym b" and "type a = type b"
    by (simp_all add: clear_def)
qed

lemma store_dup_agree:
  "fst (store_dup v a) = fst (store_dup v b) \<and>
   same_write (a, b) (snd (store_dup v a), snd (store_dup v b))"
  by (cases v) (simp_all add: store_dup_def same_write_def)

lemma flag_agree: "same_write (a, b) (a\<lparr>val := Some s\<rparr>, b\<lparr>val := Some s\<rparr>)"
  by (simp add: same_write_def)

lemma assign_name_agree:
  assumes "list_all2 (\<lambda>a b. clear a = clear b) A B"
  shows "fst (assign_name n v A) = fst (assign_name n v B) \<and>
         list_all2 same_write (zip A B) (zip (snd (assign_name n v A)) (snd (assign_name n v B)))"
  using assms
proof (induction rule: list_all2_induct)
  case Nil
  then show ?case by simp
next
  case (Cons a A b B)
  from Cons.hyps(1) have "name a = name b" by (rule clear_fields)
  with Cons.IH store_dup_agree [of v a b] show ?case
    by (simp add: split_beta same_write_list_refl same_write_refl)
qed

lemma assign_name_kind_agree:
  assumes "list_all2 (\<lambda>a b. clear a = clear b) A B"
  shows "fst (assign_name_kind n v A) = fst (assign_name_kind n v B) \<and>
         list_all2 same_write (zip A B)
           (zip (snd (assign_name_kind n v A)) (snd (assign_name_kind n v B)))"
  using assms
proof (induction rule: list_all2_induct)
  case Nil
  then show ?case by simp
next
  case (Cons a A b B)
  from Cons.hyps(1) have "name a = name b" "type a = type b" by (rule clear_fields)+
  with Cons.IH store_dup_agree [of v a b] show ?case
    by (simp add: split_beta same_write_list_refl same_write_refl flag_agree)
qed

lemma assign_sym_agree:
  assumes "list_all2 (\<lambda>a b. clear a = clear b) A B"
  shows "fst (assign_sym c v A) = fst (assign_sym c v B) \<and>
         list_all2 same_write (zip A B) (zip (snd (assign_sym c v A)) (snd (assign_sym c v B)))"
  using assms
proof (induction rule: list_all2_induct)
  case Nil
  then show ?case by simp
next
  case (Cons a A b B)
  from Cons.hyps(1) have "sym a = sym b" "type a = type b" by (rule clear_fields)+
  with Cons.IH store_dup_agree [of v a b] show ?case
    by (simp add: split_beta same_write_list_refl same_write_refl flag_agree)
qed


lemma match_name_agree:
  assumes "map clear A = map clear B"
  shows "fst (match_name n v A) = fst (match_name n v B) \<and>
         list_all2 same_write (zip A B) (zip (snd (match_name n v A)) (snd (match_name n v B)))"
proof -
  let ?A1 = "snd (assign_name n v A)" and ?B1 = "snd (assign_name n v B)"
  from assms have rel: "list_all2 (\<lambda>a b. clear a = clear b) A B" by (simp add: same_decl_iff)
  note one = assign_name_agree [OF rel, of n v]
  show ?thesis
  proof (cases "fst (assign_name n v A)")
    case None
    have "map clear ?A1 = map clear ?B1" using assms by (simp add: assign_name_clear)
    then have "list_all2 (\<lambda>a b. clear a = clear b) ?A1 ?B1" by (simp add: same_decl_iff)
    note two = assign_name_kind_agree [OF this, of n v]
    from one two have "list_all2 same_write (zip A B)
        (zip (snd (assign_name_kind n v ?A1)) (snd (assign_name_kind n v ?B1)))"
      by (blast intro: same_write_list_trans)
    moreover from None one have "fst (assign_name n v B) = None" by simp
    ultimately show ?thesis using None two by (simp add: match_name_def split_beta)
  next
    case (Some e)
    moreover from Some one have "fst (assign_name n v B) = Some e" by simp
    ultimately show ?thesis using one by (simp add: match_name_def split_beta)
  qed
qed

lemma assign_cluster_agree:
  "map clear A = map clear B \<Longrightarrow>
   fst (assign_cluster cs v A) = fst (assign_cluster cs v B) \<and>
   list_all2 same_write (zip A B) (zip (snd (assign_cluster cs v A)) (snd (assign_cluster cs v B)))"
proof (induction cs arbitrary: A B)
  case Nil
  then show ?case by (simp add: same_write_list_refl)
next
  case (Cons c cs)
  let ?A1 = "snd (assign_sym c v A)" and ?B1 = "snd (assign_sym c v B)"
  from Cons.prems have rel: "list_all2 (\<lambda>a b. clear a = clear b) A B" by (simp add: same_decl_iff)
  note one = assign_sym_agree [OF rel, of c v]
  show ?case
  proof (cases "fst (assign_sym c v A)")
    case None
    have "map clear ?A1 = map clear ?B1" using Cons.prems by (simp add: assign_sym_clear)
    note two = Cons.IH [OF this]
    from one two have "list_all2 same_write (zip A B)
        (zip (snd (assign_cluster cs v ?A1)) (snd (assign_cluster cs v ?B1)))"
      by (blast intro: same_write_list_trans)
    moreover from None one have "fst (assign_sym c v B) = None" by simp
    ultimately show ?thesis using None two by (simp add: split_beta)
  next
    case (Some e)
    moreover from Some one have "fst (assign_sym c v B) = Some e" by simp
    ultimately show ?thesis using one by (simp add: split_beta)
  qed
qed

lemma parse_token_agree:
  assumes "map clear A = map clear B"
  shows "fst (parse_token tok (A, out)) = fst (parse_token tok (B, out')) \<and>
         list_all2 same_write (zip A B)
           (zip (fst (snd (parse_token tok (A, out)))) (fst (snd (parse_token tok (B, out')))))"
  using match_name_agree [OF assms] assign_cluster_agree [OF assms]
  by (simp add: parse_token_def split_beta)

lemma parse_token_length: "length (fst (snd (parse_token tok (A, out)))) = length A"
  using map_clear_length [OF parse_token_clear [of tok "(A, out)"]] by simp

lemma written_decl: "map clear A = map clear B \<Longrightarrow> written tok A i = written tok B i"
  by (simp add: written_def)

lemma parse_token_written:
  assumes "i < length A"
  shows "val (fst (snd (parse_token tok (A, out))) ! i) = overwrite (val (A ! i)) (written tok A i)"
proof -
  let ?A' = "fst (snd (parse_token tok (A, out)))"
  let ?Q = "fst (snd (parse_token tok (map clear A, [])))"
  have "map clear A = map clear (map clear A)" by (simp add: clear_def)
  from parse_token_agree [OF this, of tok out "[]"]
  have "list_all2 same_write (zip A (map clear A)) (zip ?A' ?Q)" by simp
  moreover have "i < length (zip A (map clear A))" using assms by simp
  ultimately have "same_write (zip A (map clear A) ! i) (zip ?A' ?Q ! i)"
    by (rule list_all2_nthD)
  moreover have "length ?A' = length A" "length ?Q = length A"
    using parse_token_length [of tok A out] parse_token_length [of tok "map clear A" "[]"]
    by simp_all
  ultimately have "same_write (A ! i, clear (A ! i)) (?A' ! i, ?Q ! i)"
    using assms by simp
  then show ?thesis
    by (auto simp: same_write_def written_def overwrite_def clear_def)
qed

lemma scan_tokens_written:
  "fst (scan_tokens toks (A, out)) = None \<Longrightarrow> i < length A \<Longrightarrow>
   val (fst (snd (scan_tokens toks (A, out))) ! i) =
     foldl overwrite (val (A ! i)) (map (\<lambda>t. written t A i) toks)"
proof (induction toks arbitrary: A out)
  case Nil
  then show ?case by simp
next
  case (Cons tok toks)
  obtain f1 A1 out1 where one: "parse_token tok (A, out) = (f1, A1, out1)"
    by (cases "parse_token tok (A, out)")
  with Cons.prems(1) have f1: "f1 = None" by (cases f1) simp_all
  have same: "map clear A1 = map clear A"
    using parse_token_clear [of tok "(A, out)"] one by simp
  then have len: "i < length A1" using Cons.prems(2) map_clear_length [OF same] by simp
  from one f1 Cons.prems(1) have rest: "fst (scan_tokens toks (A1, out1)) = None"
    by (simp add: split_beta)
  from Cons.IH [OF this len]
  have "val (fst (snd (scan_tokens toks (A1, out1))) ! i) =
      foldl overwrite (val (A1 ! i)) (map (\<lambda>t. written t A1 i) toks)" .
  moreover have "map (\<lambda>t. written t A1 i) toks = map (\<lambda>t. written t A i) toks"
    using written_decl [OF same] by simp
  moreover have "val (A1 ! i) = overwrite (val (A ! i)) (written tok A i)"
    using parse_token_written [OF Cons.prems(2), of tok out] one by simp
  ultimately show ?case using one f1 rest by (simp add: split_beta)
qed

lemma overwrite_last:
  "\<forall>w\<in>set ws. w = None \<Longrightarrow> foldl overwrite cur (vs @ Some v # ws) = Some v"
  by (induction ws rule: rev_induct) (simp_all add: overwrite_def)

lemma overwrite_none: "\<forall>w\<in>set ws. w = None \<Longrightarrow> foldl overwrite cur ws = cur"
  by (induction ws rule: rev_induct) (simp_all add: overwrite_def)


subsection \<open>How the scan can end\<close>

lemma store_dup_no_exit: "fst (store_dup v a) \<noteq> Some (Exit k)"
  by (cases v) (simp_all add: store_dup_def)

lemma assign_name_no_exit: "fst (assign_name n v args) \<noteq> Some (Exit k)"
  by (induction args) (simp_all add: split_beta store_dup_no_exit)

lemma assign_name_kind_no_exit: "fst (assign_name_kind n v args) \<noteq> Some (Exit k)"
  by (induction args) (simp_all add: split_beta store_dup_no_exit)

lemma assign_sym_no_exit: "fst (assign_sym c v args) \<noteq> Some (Exit k)"
  by (induction args) (simp_all add: split_beta store_dup_no_exit)

lemma match_name_no_exit: "fst (match_name n v args) \<noteq> Some (Exit k)"
proof (cases "fst (assign_name n v args)")
  case None
  then show ?thesis by (simp add: match_name_def split_beta assign_name_kind_no_exit)
next
  case (Some e)
  with assign_name_no_exit [of n v args k] show ?thesis
    by (simp add: match_name_def split_beta)
qed

lemma assign_cluster_no_exit: "fst (assign_cluster cs v args) \<noteq> Some (Exit k)"
proof (induction cs arbitrary: args)
  case Nil
  then show ?case by simp
next
  case (Cons c cs)
  show ?case
  proof (cases "fst (assign_sym c v args)")
    case None
    then show ?thesis using Cons.IH by (simp add: split_beta)
  next
    case (Some e)
    with assign_sym_no_exit [of c v args k] show ?thesis by (simp add: split_beta)
  qed
qed

lemma parse_token_no_exit: "fst (parse_token tok st) \<noteq> Some (Exit k)"
  by (simp add: parse_token_def split_beta match_name_no_exit assign_cluster_no_exit)

lemma scan_tokens_no_exit: "fst (scan_tokens toks st) \<noteq> Some (Exit k)"
proof (induction toks arbitrary: st)
  case Nil
  then show ?case by simp
next
  case (Cons tok toks)
  show ?case
  proof (cases "fst (parse_token tok st)")
    case None
    then show ?thesis using Cons.IH by (simp add: split_beta)
  next
    case (Some e)
    with parse_token_no_exit [of tok st k] show ?thesis by (simp add: split_beta)
  qed
qed

lemma scan_completed:
  assumes "fst (parse_args p argc argv io) \<noteq> Some Strdup_NULL"
  shows "fst (scan_tokens (drop 1 (take (nat argc) argv)) (arguments p, stdout io)) = None"
proof (cases "fst (scan_tokens (drop 1 (take (nat argc) argv)) (arguments p, stdout io))")
  case None
  then show ?thesis .
next
  case (Some e)
  then have "fst (parse_args p argc argv io) = Some e"
    by (simp add: parse_args_def split_beta)
  with assms have "e \<noteq> Strdup_NULL" by simp
  then obtain k where "e = Exit k" by (cases e) simp_all
  with Some scan_tokens_no_exit show ?thesis by blast
qed

lemma parse_args_arguments:
  assumes "fst (scan_tokens (drop 1 (take (nat argc) argv)) (arguments p, stdout io)) = None"
  shows "arguments (fst (snd (parse_args p argc argv io))) =
           fst (snd (check_required []
             (fst (snd (scan_tokens (drop 1 (take (nat argc) argv)) (arguments p, stdout io))))
             (stderr io)))"
    and "fst (parse_args p argc argv io) =
           fst (check_required []
             (fst (snd (scan_tokens (drop 1 (take (nat argc) argv)) (arguments p, stdout io))))
             (stderr io))"
  using assms by (simp_all add: parse_args_def split_beta)

subsection \<open>Tokens whose iteration comes to its end\<close>

lemma assign_name_Some: "fst (assign_name n (Some s) args) = None"
  by (induction args) (simp_all add: split_beta store_dup_def)

lemma match_name_Some: "fst (match_name n (Some s) args) = None"
  by (simp add: match_name_def split_beta assign_name_Some assign_name_kind_Some
        split: option.split)

lemma assign_name_absent: "\<forall>a\<in>set args. name a \<noteq> n \<Longrightarrow> assign_name n v args = (None, args)"
  by (induction args) simp_all

lemma assign_name_kind_absent:
  "\<forall>a\<in>set args. name a \<noteq> n \<Longrightarrow> assign_name_kind n v args = (None, args)"
  by (induction args) simp_all

lemma match_name_absent: "\<forall>a\<in>set args. name a \<noteq> n \<Longrightarrow> match_name n v args = (None, args)"
  by (simp add: match_name_def assign_name_absent assign_name_kind_absent)

lemma bare_token_completes:
  assumes "take 1 tok \<noteq> ''-''"
      and "CHR ''='' \<in> set tok \<or> (\<forall>a\<in>set args. name a \<noteq> tok)"
  shows "fst (parse_token tok (args, out)) = None"
proof (cases "CHR ''='' \<in> set tok")
  case True
  then have "snd (split_eq tok) = Some (tl (dropWhile (\<lambda>c. c \<noteq> CHR ''='') tok))"
    by (simp add: split_eq_def)
  with assms(1) show ?thesis
    using two_dashes_one [of tok]
    by (auto simp: parse_token_def split_beta match_name_Some)
next
  case False
  with assms(2) have "\<forall>a\<in>set args. name a \<noteq> tok" by simp
  then have "match_name tok None args = (None, args)" by (rule match_name_absent)
  moreover from False have "split_eq tok = (tok, None)" by (rule split_eq_without)
  ultimately show ?thesis
    using assms(1) two_dashes_one [of tok] by (auto simp: parse_token_def)
qed

lemma assign_sym_Some: "fst (assign_sym c (Some s) args) = None"
  by (induction args) (simp_all add: split_beta store_dup_def)

lemma assign_cluster_Some: "fst (assign_cluster cs (Some s) args) = None"
proof (induction cs arbitrary: args)
  case Nil
  then show ?case by simp
next
  case (Cons c cs)
  with assign_sym_Some [of c s args] show ?case by (simp add: split_beta)
qed

lemma short_token_cluster:
  assumes "take 1 tok = ''-''" and "take 2 tok \<noteq> ''--''"
  shows "parse_token tok (args, out) =
           (fst (assign_cluster (fst (split_eq (drop 1 tok))) (snd (split_eq (drop 1 tok))) args),
            snd (assign_cluster (fst (split_eq (drop 1 tok))) (snd (split_eq (drop 1 tok))) args),
            out)"
  using assms by (simp add: parse_token_def split_beta)

lemma short_token_with_value:
  assumes "take 1 tok = ''-''" and "take 2 tok \<noteq> ''--''" and "CHR ''='' \<in> set tok"
  shows "fst (parse_token tok (args, out)) = None"
proof -
  from assms(1) obtain cs where tok: "tok = CHR ''-'' # cs" by (cases tok) simp_all
  with assms(3) have "CHR ''='' \<in> set (drop 1 tok)" by simp
  then have "snd (split_eq (drop 1 tok)) =
      Some (tl (dropWhile (\<lambda>c. c \<noteq> CHR ''='') (drop 1 tok)))"
    by (simp add: split_eq_def)
  then show ?thesis
    by (simp add: short_token_cluster [OF assms(1,2)] assign_cluster_Some)
qed

subsection \<open>A cluster that holds a symbol\<close>

lemma assign_sym_at_first:
  "i < length args \<Longrightarrow> sym (args ! i) = c \<Longrightarrow> type (args ! i) \<noteq> ARG \<Longrightarrow>
   \<forall>j<i. sym (args ! j) = c \<longrightarrow> type (args ! j) = ARG \<Longrightarrow>
   assign_sym c w args =
     (if type (args ! i) = FLAG then (None, args[i := (args ! i)\<lparr>val := Some ''true''\<rparr>])
      else (case w of None \<Rightarrow> (Some Strdup_NULL, args)
            | Some s \<Rightarrow> (None, args[i := (args ! i)\<lparr>val := Some s\<rparr>])))"
proof (induction args arbitrary: i)
  case Nil
  then show ?case by simp
next
  case (Cons a rest)
  show ?case
  proof (cases i)
    case 0
    with Cons.prems show ?thesis
      by (cases "type a") (auto simp: store_dup_def split: option.split)
  next
    case (Suc k)
    with Cons.prems have head: "sym a = c \<longrightarrow> type a = ARG" by auto
    from Suc Cons.prems have "k < length rest" "sym (rest ! k) = c" "type (rest ! k) \<noteq> ARG"
      by simp_all
    moreover from Suc Cons.prems have "\<forall>j<k. sym (rest ! j) = c \<longrightarrow> type (rest ! j) = ARG"
      by auto
    ultimately have "assign_sym c w rest =
     (if type (rest ! k) = FLAG then (None, rest[k := (rest ! k)\<lparr>val := Some ''true''\<rparr>])
      else (case w of None \<Rightarrow> (Some Strdup_NULL, rest)
            | Some s \<Rightarrow> (None, rest[k := (rest ! k)\<lparr>val := Some s\<rparr>])))"
      by (rule Cons.IH)
    with head Suc show ?thesis by (auto split: option.split)
  qed
qed

lemma assign_sym_first_done:
  assumes "i < length args" and "sym (args ! i) = c" and "type (args ! i) \<noteq> ARG"
      and "\<forall>j<i. sym (args ! j) = c \<longrightarrow> type (args ! j) = ARG"
      and "fst (assign_sym c w args) = None"
  shows "snd (assign_sym c w args) =
           args[i := (args ! i)\<lparr>val := (if type (args ! i) = FLAG then Some ''true'' else w)\<rparr>]"
    and "type (args ! i) = FLAG \<or> w \<noteq> None"
  using assign_sym_at_first [OF assms(1-4), of w] assms(5)
  by (auto split: if_splits option.splits)

lemma assign_sym_other:
  "j < length args \<Longrightarrow> sym (args ! j) \<noteq> d \<Longrightarrow> snd (assign_sym d w args) ! j = args ! j"
proof (induction args arbitrary: j)
  case Nil
  then show ?case by simp
next
  case (Cons a rest)
  then show ?case by (cases j) (auto simp: split_beta)
qed

lemma assign_cluster_first:
  "i < length args \<Longrightarrow> sym (args ! i) = c \<Longrightarrow> type (args ! i) \<noteq> ARG \<Longrightarrow>
   \<forall>j<i. sym (args ! j) = c \<longrightarrow> type (args ! j) = ARG \<Longrightarrow>
   fst (assign_cluster cs w args) = None \<Longrightarrow>
   (\<forall>j<length args. j \<noteq> i \<and> sym (args ! j) = c \<longrightarrow>
      snd (assign_cluster cs w args) ! j = args ! j) \<and>
   (if c \<in> set cs
    then val (snd (assign_cluster cs w args) ! i) =
           (if type (args ! i) = FLAG then Some ''true'' else w) \<and>
         (type (args ! i) = FLAG \<or> w \<noteq> None)
    else snd (assign_cluster cs w args) ! i = args ! i)"
proof (induction cs arbitrary: args)
  case Nil
  then show ?case by simp
next
  case (Cons d ds)
  let ?A1 = "snd (assign_sym d w args)"
  let ?R = "snd (assign_cluster ds w ?A1)"
  have one: "fst (assign_sym d w args) = None"
  proof (cases "fst (assign_sym d w args)")
    case None
    then show ?thesis .
  next
    case (Some e)
    with Cons.prems(5) show ?thesis by (simp add: split_beta)
  qed
  then have whole: "assign_cluster (d # ds) w args = assign_cluster ds w ?A1"
    by (simp add: split_beta)
  have same: "map clear ?A1 = map clear args" by (rule assign_sym_clear)
  have len: "length ?A1 = length args" using same by (rule map_clear_length)
  have syms: "sym (?A1 ! j) = sym (args ! j)" and types: "type (?A1 ! j) = type (args ! j)"
    if "j < length args" for j
    using map_clear_nth(2,3) [OF same, of j] that len by simp_all
  have "i < length ?A1" "sym (?A1 ! i) = c" "type (?A1 ! i) \<noteq> ARG"
    using Cons.prems(1,2,3) len syms types by simp_all
  moreover have "\<forall>j<i. sym (?A1 ! j) = c \<longrightarrow> type (?A1 ! j) = ARG"
    using Cons.prems(1,4) syms types by simp
  moreover have "fst (assign_cluster ds w ?A1) = None" using Cons.prems(5) whole by simp
  ultimately have IH:
    "(\<forall>j<length ?A1. j \<noteq> i \<and> sym (?A1 ! j) = c \<longrightarrow> ?R ! j = ?A1 ! j) \<and>
     (if c \<in> set ds
      then val (?R ! i) = (if type (?A1 ! i) = FLAG then Some ''true'' else w) \<and>
           (type (?A1 ! i) = FLAG \<or> w \<noteq> None)
      else ?R ! i = ?A1 ! i)"
    by (rule Cons.IH)
  have ti: "type (?A1 ! i) = type (args ! i)" using types Cons.prems(1) by simp
  show ?case
  proof (cases "d = c")
    case True
    have A1: "?A1 = args[i := (args ! i)\<lparr>val := (if type (args ! i) = FLAG then Some ''true'' else w)\<rparr>]"
      and ok: "type (args ! i) = FLAG \<or> w \<noteq> None"
      using assign_sym_first_done [OF Cons.prems(1-4), of w] one True by simp_all
    have others: "\<forall>j<length args. j \<noteq> i \<and> sym (args ! j) = c \<longrightarrow> ?R ! j = args ! j"
    proof (intro allI impI)
      fix j assume j: "j < length args" "j \<noteq> i \<and> sym (args ! j) = c"
      then have "?R ! j = ?A1 ! j" using IH len syms by simp
      also have "?A1 ! j = args ! j" using A1 j by simp
      finally show "?R ! j = args ! j" .
    qed
    have "val (?R ! i) = (if type (args ! i) = FLAG then Some ''true'' else w)"
    proof (cases "c \<in> set ds")
      case True
      with IH ti show ?thesis by simp
    next
      case False
      with IH have "?R ! i = ?A1 ! i" by simp
      also have "?A1 ! i = (args ! i)\<lparr>val := (if type (args ! i) = FLAG then Some ''true'' else w)\<rparr>"
        using A1 Cons.prems(1) by simp
      finally show ?thesis by simp
    qed
    with others ok True whole show ?thesis by simp
  next
    case False
    have keep: "?A1 ! j = args ! j" if "j < length args" "sym (args ! j) = c" for j
      using that False by (intro assign_sym_other) auto
    have others: "\<forall>j<length args. j \<noteq> i \<and> sym (args ! j) = c \<longrightarrow> ?R ! j = args ! j"
    proof (intro allI impI)
      fix j assume j: "j < length args" "j \<noteq> i \<and> sym (args ! j) = c"
      then have "?R ! j = ?A1 ! j" using IH len syms by simp
      also have "?A1 ! j = args ! j" using keep j by simp
      finally show "?R ! j = args ! j" .
    qed
    have "if c \<in> set ds
      then val (?R ! i) = (if type (args ! i) = FLAG then Some ''true'' else w) \<and>
           (type (args ! i) = FLAG \<or> w \<noteq> None)
      else ?R ! i = args ! i"
      using IH ti keep [OF Cons.prems(1,2)] by (auto split: if_splits)
    with others False whole show ?thesis by auto
  qed
qed

section \<open>The claims\<close>

subsection \<open>C1: one value for a whole short cluster\<close>

text \<open>
  C1. Let two keyword arguments carry the symbols \<open>a\<close> and \<open>b\<close>, each the first flag
  or keyword argument of its symbol in declaration order. One iteration on the token
  \<open>-ab=x\<close> stores the text \<open>x\<close> after the \<open>=\<close> in both of them and changes nothing
  else. A call of \<open>parse_args\<close> on this single token has no undefined behaviour and
  both arguments hold \<open>x\<close> when it ends; \<open>get_kwarg\<close> then returns \<open>x\<close> for the
  name of each of the two that is the first argument of its name. The value belongs to
  every keyword argument of the cluster, not only to the last one.
\<close>

theorem cluster_value_shared:
  assumes a: "ia < length (arguments p)" "sym (arguments p ! ia) = CHR ''a''"
             "type (arguments p ! ia) = KWARG"
             "\<forall>k<ia. sym (arguments p ! k) = CHR ''a'' \<longrightarrow> type (arguments p ! k) = ARG"
      and b: "ib < length (arguments p)" "sym (arguments p ! ib) = CHR ''b''"
             "type (arguments p ! ib) = KWARG"
             "\<forall>k<ib. sym (arguments p ! k) = CHR ''b'' \<longrightarrow> type (arguments p ! k) = ARG"
  shows "parse_token (''-ab='' @ x) (arguments p, stdout io) =
           (None,
            (arguments p)[ia := (arguments p ! ia)\<lparr>val := Some x\<rparr>,
                          ib := (arguments p ! ib)\<lparr>val := Some x\<rparr>],
            stdout io) \<and>
         fst (parse_args p 2 [prog, ''-ab='' @ x] io) \<noteq> Some Strdup_NULL \<and>
         val (arguments (fst (snd (parse_args p 2 [prog, ''-ab='' @ x] io))) ! ia) = Some x \<and>
         val (arguments (fst (snd (parse_args p 2 [prog, ''-ab='' @ x] io))) ! ib) = Some x \<and>
         ((\<forall>k<ia. name (arguments p ! k) \<noteq> name (arguments p ! ia)) \<longrightarrow>
            get_kwarg (fst (snd (parse_args p 2 [prog, ''-ab='' @ x] io)))
              (name (arguments p ! ia)) = Some x) \<and>
         ((\<forall>k<ib. name (arguments p ! k) \<noteq> name (arguments p ! ib)) \<longrightarrow>
            get_kwarg (fst (snd (parse_args p 2 [prog, ''-ab='' @ x] io)))
              (name (arguments p ! ib)) = Some x)"
proof -
  let ?A = "arguments p"
  let ?A1 = "?A[ia := (?A ! ia)\<lparr>val := Some x\<rparr>]"
  let ?A2 = "?A1[ib := (?A ! ib)\<lparr>val := Some x\<rparr>]"
  let ?R = "parse_args p 2 [prog, ''-ab='' @ x] io"
  have differ: "ia \<noteq> ib" using a(2) b(2) by auto
  have "assign_sym CHR ''a'' (Some x) ?A =
      (None, ?A[ia := (?A ! ia)\<lparr>val := Some (if type (?A ! ia) = FLAG then ''true'' else x)\<rparr>])"
    using a(1,2) _ _ a(4) by (rule assign_sym_first) (simp_all add: a(3))
  then have one: "assign_sym CHR ''a'' (Some x) ?A = (None, ?A1)" using a(3) by simp
  have "assign_sym CHR ''b'' (Some x) ?A1 =
      (None, ?A1[ib := (?A1 ! ib)\<lparr>val := Some (if type (?A1 ! ib) = FLAG then ''true'' else x)\<rparr>])"
  proof (rule assign_sym_first)
    show "ib < length ?A1" using b(1) by simp
    show "sym (?A1 ! ib) = CHR ''b''" using b(2) differ by simp
    show "type (?A1 ! ib) \<noteq> ARG" using b(3) differ by simp
    show "type (?A1 ! ib) = FLAG \<or> Some x = Some x" by simp
    show "\<forall>k<ib. sym (?A1 ! k) = CHR ''b'' \<longrightarrow> type (?A1 ! k) = ARG"
    proof (intro allI impI)
      fix k assume k: "k < ib" "sym (?A1 ! k) = CHR ''b''"
      have "k \<noteq> ia"
      proof
        assume "k = ia"
        with k(2) a(1,2) show False by simp
      qed
      with k b(4) show "type (?A1 ! k) = ARG" by simp
    qed
  qed
  then have two: "assign_sym CHR ''b'' (Some x) ?A1 = (None, ?A2)" using b(3) differ by simp
  have "split_eq (''ab'' @ CHR ''='' # x) = (''ab'', Some x)" by (rule split_eq_with) simp
  with one two have tok: "parse_token (''-ab='' @ x) (?A, stdout io) = (None, ?A2, stdout io)"
    by (simp add: parse_token_def)
  have R: "?R = (fst (check_required [] ?A2 (stderr io)),
            p\<lparr>arguments := fst (snd (check_required [] ?A2 (stderr io)))\<rparr>,
            io\<lparr>stdout := stdout io, stderr := snd (snd (check_required [] ?A2 (stderr io)))\<rparr>)"
    using tok by (rule parse_args_single)
  have no_fault: "fst ?R \<noteq> Some Strdup_NULL" using R by (simp add: check_required_no_strdup)
  have "fst (snd (check_required [] ?A2 (stderr io))) ! ia = ?A2 ! ia"
    using a(1) differ by (intro check_required_keeps) simp_all
  with R a(1) differ have va: "val (arguments (fst (snd ?R)) ! ia) = Some x" by simp
  have "fst (snd (check_required [] ?A2 (stderr io))) ! ib = ?A2 ! ib"
    using b(1) by (intro check_required_keeps) simp_all
  with R b(1) have vb: "val (arguments (fst (snd ?R)) ! ib) = Some x" by simp
  have same: "map clear (arguments (fst (snd ?R))) = map clear ?A" by (rule parse_args_clear)
  have getter: "get_kwarg (fst (snd ?R)) (name (?A ! i)) = Some x"
    if i: "i < length ?A" "type (?A ! i) = KWARG" "val (arguments (fst (snd ?R)) ! i) = Some x"
      and first: "\<forall>k<i. name (?A ! k) \<noteq> name (?A ! i)" for i
  proof -
    have "find (\<lambda>a. name a = name (?A ! i)) (arguments (fst (snd ?R))) =
        Some (arguments (fst (snd ?R)) ! i)"
      using same i(1) _ first by (rule first_named_transfer) simp
    moreover have "type (arguments (fst (snd ?R)) ! i) = KWARG"
      using map_clear_nth(3) [OF same, of i] i(1,2) map_clear_length [OF same] by simp
    ultimately show ?thesis using i(3) by (simp add: get_kwarg_def)
  qed
  from tok no_fault va vb getter [OF a(1,3) va] getter [OF b(1,3) vb] show ?thesis by simp
qed

theorem cluster_value_shared_witness:
  "fst (parse_args
      (add_kwarg (add_kwarg (new_parser ''prog'' ''u'' ''d'' ''e'' 1)
         CHR ''a'' ''alpha'' 1 None None) CHR ''b'' ''beta'' 0 (Some ''dflt'') None)
      2 [''prog'', ''-ab=X''] \<lparr>stdout = [], stderr = []\<rparr>) \<noteq> Some Strdup_NULL \<and>
   get_kwarg (fst (snd (parse_args
      (add_kwarg (add_kwarg (new_parser ''prog'' ''u'' ''d'' ''e'' 1)
         CHR ''a'' ''alpha'' 1 None None) CHR ''b'' ''beta'' 0 (Some ''dflt'') None)
      2 [''prog'', ''-ab=X''] \<lparr>stdout = [], stderr = []\<rparr>))) ''alpha'' = Some ''X'' \<and>
   get_kwarg (fst (snd (parse_args
      (add_kwarg (add_kwarg (new_parser ''prog'' ''u'' ''d'' ''e'' 1)
         CHR ''a'' ''alpha'' 1 None None) CHR ''b'' ''beta'' 0 (Some ''dflt'') None)
      2 [''prog'', ''-ab=X''] \<lparr>stdout = [], stderr = []\<rparr>))) ''beta'' = Some ''X''"
proof -
  let ?p = "add_kwarg (add_kwarg (new_parser ''prog'' ''u'' ''d'' ''e'' 1)
         CHR ''a'' ''alpha'' 1 None None) CHR ''b'' ''beta'' 0 (Some ''dflt'') None"
  have args: "arguments ?p =
      [\<lparr>name = ''help'', sym = CHR ''h'', required = 0,
        help_msg = Some ''Shows this help Menu'', type = FLAG, count = None,
        def_val = None, val = None\<rparr>,
       \<lparr>name = ''alpha'', sym = CHR ''a'', required = 1, help_msg = None, type = KWARG,
        count = None, def_val = None, val = None\<rparr>,
       \<lparr>name = ''beta'', sym = CHR ''b'', required = 0, help_msg = None, type = KWARG,
        count = None, def_val = Some ''dflt'', val = None\<rparr>]"
    by (simp add: new_parser_def add_kwarg_def add_flag_def)
  have a: "1 < length (arguments ?p)" "sym (arguments ?p ! 1) = CHR ''a''"
    "type (arguments ?p ! 1) = KWARG"
    "\<forall>k<1. sym (arguments ?p ! k) = CHR ''a'' \<longrightarrow> type (arguments ?p ! k) = ARG"
    by (simp_all add: args)
  have b: "2 < length (arguments ?p)" "sym (arguments ?p ! 2) = CHR ''b''"
    "type (arguments ?p ! 2) = KWARG"
    "\<forall>k<2. sym (arguments ?p ! k) = CHR ''b'' \<longrightarrow> type (arguments ?p ! k) = ARG"
    by (simp_all add: args less_Suc_eq numeral_2_eq_2)
  have first: "\<forall>k<1. name (arguments ?p ! k) \<noteq> name (arguments ?p ! 1)"
    "\<forall>k<2. name (arguments ?p ! k) \<noteq> name (arguments ?p ! 2)"
    by (simp_all add: args less_Suc_eq numeral_2_eq_2)
  have names: "name (arguments ?p ! 1) = ''alpha''" "name (arguments ?p ! 2) = ''beta''"
    by (simp_all add: args)
  from cluster_value_shared [OF a b, of "''X''" "\<lparr>stdout = [], stderr = []\<rparr>" "''prog''"]
    first names
  show ?thesis by simp
qed

text \<open>
  The scenario of the specification: a parser is created (with or without the
  automatic \<open>help\<close> flag, whose name the two declarations then avoid) and two keyword
  arguments are declared with the symbols \<open>a\<close> and \<open>b\<close>, under any names,
  requiredness, defaults and help texts. Parsing \<open>-ab=x\<close> returns, writes nothing, and
  \<open>get_kwarg\<close> gives \<open>x\<close> for both names.
\<close>

lemma two_keyword_cluster:
  assumes "add_help \<noteq> 0 \<longrightarrow> na \<noteq> ''help'' \<and> nb \<noteq> ''help''"
  shows "\<exists>p'. parse_args
            (add_kwarg (add_kwarg (new_parser prog usg descr epi add_help)
               CHR ''a'' na ra da ha) CHR ''b'' nb rb db hb)
            2 [prog, ''-ab='' @ x] io = (None, p', io) \<and>
          get_kwarg p' na = Some x \<and> get_kwarg p' nb = Some x"
proof (cases "add_help = 0")
  case True
  then show ?thesis
    by (simp add: parse_args_def new_parser_def add_kwarg_def parse_token_def split_eq_def
          store_dup_def missing_def take_default_def get_kwarg_def)
next
  case False
  with assms have "''help'' \<noteq> na" "''help'' \<noteq> nb" by auto
  with False show ?thesis
    by (simp add: parse_args_def new_parser_def add_kwarg_def add_flag_def parse_token_def
          split_eq_def store_dup_def missing_def take_default_def get_kwarg_def)
qed

subsection \<open>C2: a required argument without a value\<close>

text \<open>
  C2. Suppose the scan of the tokens comes to its end and leaves the table \<open>args1\<close>, in
  which some argument is required and has no value. Then \<open>parse_args\<close> ends in
  \<open>exit(EXIT_FAILURE)\<close>, a status that is not zero. Let \<open>k\<close> be the first such argument
  in declaration order. What the call has appended to the standard error stream is exactly
  the line \<open>Missing required argument: \<close> followed by the name of argument \<open>k\<close> and a
  newline: no later argument is reported. At the exit the arguments from \<open>k\<close> on are as
  the scan left them, so none of them has taken its default; only those before \<open>k\<close> have.
\<close>

theorem missing_required_exits:
  assumes "scan_tokens (drop 1 (take (nat argc) argv)) (arguments p, stdout io) = (None, args1, out1)"
      and "\<exists>a\<in>set args1. required a \<noteq> 0 \<and> val a = None"
  shows "\<exists>k<length args1.
           (required (args1 ! k) \<noteq> 0 \<and> val (args1 ! k) = None) \<and>
           (\<forall>j<k. \<not> (required (args1 ! j) \<noteq> 0 \<and> val (args1 ! j) = None)) \<and>
           parse_args p argc argv io =
             (Some (Exit EXIT_FAILURE),
              p\<lparr>arguments := map take_default (take k args1) @ drop k args1\<rparr>,
              io\<lparr>stdout := out1,
                 stderr := stderr io @ ''Missing required argument: '' @ name (args1 ! k) @ [CHR 0x0A]\<rparr>) \<and>
           EXIT_FAILURE \<noteq> 0"
proof -
  from assms(2) have "\<exists>a\<in>set args1. missing a" by (simp add: missing_def)
  then obtain k where k: "k < length args1" "missing (args1 ! k)" "\<forall>j<k. \<not> missing (args1 ! j)"
    using first_index_exists [of args1 missing] by blast
  from k have "check_required [] args1 (stderr io) =
     (Some (Exit EXIT_FAILURE), [] @ map take_default (take k args1) @ drop k args1,
      stderr io @ ''Missing required argument: '' @ name (args1 ! k) @ [CHR 0x0A])"
    by (rule check_required_first)
  with assms(1) have "parse_args p argc argv io =
             (Some (Exit EXIT_FAILURE),
              p\<lparr>arguments := map take_default (take k args1) @ drop k args1\<rparr>,
              io\<lparr>stdout := out1,
                 stderr := stderr io @ ''Missing required argument: '' @ name (args1 ! k) @ [CHR 0x0A]\<rparr>)"
    by (simp add: parse_args_def)
  moreover have "EXIT_FAILURE \<noteq> 0" by (simp add: EXIT_FAILURE_def)
  ultimately show ?thesis using k unfolding missing_def by blast
qed

theorem missing_required_exits_witness:
  "parse_args
     (add_kwarg (add_kwarg (add_arg (add_kwarg (new_parser ''prog'' ''u'' ''d'' ''e'' 0)
        CHR ''v'' ''verbose'' 0 (Some ''false'') None)
        CHR ''o'' ''output'' 1 1 None None)
        CHR ''m'' ''mode'' 1 (Some ''fast'') None)
        CHR ''l'' ''level'' 0 (Some ''3'') None)
     1 [''prog''] \<lparr>stdout = [], stderr = []\<rparr> =
   (Some (Exit 1),
    \<lparr>program = ''prog'', usage = ''u'', epilog = ''e'', description = ''d'',
     arguments =
       [\<lparr>name = ''verbose'', sym = CHR ''v'', required = 0, help_msg = None, type = KWARG,
         count = None, def_val = Some ''false'', val = Some ''false''\<rparr>,
        \<lparr>name = ''output'', sym = CHR ''o'', required = 1, help_msg = None, type = ARG,
         count = Some 1, def_val = None, val = None\<rparr>,
        \<lparr>name = ''mode'', sym = CHR ''m'', required = 1, help_msg = None, type = KWARG,
         count = None, def_val = Some ''fast'', val = None\<rparr>,
        \<lparr>name = ''level'', sym = CHR ''l'', required = 0, help_msg = None, type = KWARG,
         count = None, def_val = Some ''3'', val = None\<rparr>]\<rparr>,
    \<lparr>stdout = [], stderr = ''Missing required argument: output'' @ [CHR 0x0A]\<rparr>)"
proof -
  let ?p = "add_kwarg (add_kwarg (add_arg (add_kwarg (new_parser ''prog'' ''u'' ''d'' ''e'' 0)
        CHR ''v'' ''verbose'' 0 (Some ''false'') None)
        CHR ''o'' ''output'' 1 1 None None)
        CHR ''m'' ''mode'' 1 (Some ''fast'') None)
        CHR ''l'' ''level'' 0 (Some ''3'') None"
  let ?io = "\<lparr>stdout = [], stderr = []\<rparr>"
  have scan: "scan_tokens (drop 1 (take (nat 1) [''prog''])) (arguments ?p, stdout ?io) =
      (None, arguments ?p, [])" by simp
  have some: "\<exists>a\<in>set (arguments ?p). required a \<noteq> 0 \<and> val a = None"
    by (simp add: new_parser_def add_kwarg_def add_arg_def)
  from missing_required_exits [OF scan some] obtain k where
    k: "k < length (arguments ?p)"
       "required (arguments ?p ! k) \<noteq> 0 \<and> val (arguments ?p ! k) = None"
       "\<forall>j<k. \<not> (required (arguments ?p ! j) \<noteq> 0 \<and> val (arguments ?p ! j) = None)"
    and result: "parse_args ?p 1 [''prog''] ?io =
       (Some (Exit EXIT_FAILURE),
        ?p\<lparr>arguments := map take_default (take k (arguments ?p)) @ drop k (arguments ?p)\<rparr>,
        ?io\<lparr>stdout := [],
            stderr := stderr ?io @ ''Missing required argument: '' @ name (arguments ?p ! k) @ [CHR 0x0A]\<rparr>)"
    by blast
  have args: "arguments ?p =
       [\<lparr>name = ''verbose'', sym = CHR ''v'', required = 0, help_msg = None, type = KWARG,
         count = None, def_val = Some ''false'', val = None\<rparr>,
        \<lparr>name = ''output'', sym = CHR ''o'', required = 1, help_msg = None, type = ARG,
         count = Some 1, def_val = None, val = None\<rparr>,
        \<lparr>name = ''mode'', sym = CHR ''m'', required = 1, help_msg = None, type = KWARG,
         count = None, def_val = Some ''fast'', val = None\<rparr>,
        \<lparr>name = ''level'', sym = CHR ''l'', required = 0, help_msg = None, type = KWARG,
         count = None, def_val = Some ''3'', val = None\<rparr>]"
    by (simp add: new_parser_def add_kwarg_def add_arg_def)
  have "k \<noteq> 0"
  proof
    assume "k = 0"
    with k(2) args show False by simp
  qed
  moreover have "\<not> 1 < k"
  proof
    assume "1 < k"
    with k(3) have "\<not> (required (arguments ?p ! 1) \<noteq> 0 \<and> val (arguments ?p ! 1) = None)"
      by blast
    with args show False by simp
  qed
  ultimately have "k = 1" by arith
  with result args show ?thesis
    by (simp add: new_parser_def add_kwarg_def add_arg_def take_default_def EXIT_FAILURE_def)
qed

subsection \<open>C3: a keyword argument without a value\<close>

text \<open>
  C3, as the claim is written, fails. A keyword argument \<open>name\<close> is declared with the
  default \<open>dflt\<close>. Parsing the bare token \<open>--name\<close> ends in \<open>strdup(NULL)\<close> at line
  388 and assigns nothing. And the value that the claim wants assigned, the null pointer,
  is no state of its own: the loop after the scan, run on the table in which the argument
  has no value, puts the default in when the argument is not required and reports it
  missing when it is required, as it does for an argument that never matched.
\<close>

theorem absent_value_counterexample:
  "fst (parse_args
      (add_kwarg (new_parser ''p'' ''u'' ''d'' ''e'' 0) CHR ''n'' ''name'' 0 (Some ''dflt'') None)
      2 [''p'', ''--name''] \<lparr>stdout = [], stderr = []\<rparr>) = Some Strdup_NULL \<and>
   check_required []
     [\<lparr>name = ''name'', sym = CHR ''n'', required = 0, help_msg = None, type = KWARG,
       count = None, def_val = Some ''dflt'', val = None\<rparr>] [] =
     (None,
      [\<lparr>name = ''name'', sym = CHR ''n'', required = 0, help_msg = None, type = KWARG,
        count = None, def_val = Some ''dflt'', val = Some ''dflt''\<rparr>], []) \<and>
   check_required []
     [\<lparr>name = ''name'', sym = CHR ''n'', required = 1, help_msg = None, type = KWARG,
       count = None, def_val = Some ''dflt'', val = None\<rparr>] [] =
     (Some (Exit EXIT_FAILURE),
      [\<lparr>name = ''name'', sym = CHR ''n'', required = 1, help_msg = None, type = KWARG,
        count = None, def_val = Some ''dflt'', val = None\<rparr>],
      ''Missing required argument: name'' @ [CHR 0x0A])"
  by (simp add: parse_args_def new_parser_def add_kwarg_def parse_token_def split_eq_def
        match_name_def store_dup_def missing_def take_default_def)

text \<open>
  C3, amended. A keyword argument has no absent value that is distinct from never having
  matched. Let the keyword argument at index \<open>i\<close> be the first argument named \<open>n\<close>, and
  let the scan of the tokens, whatever they are, end with no value in it. If the argument
  is required, it counts as missing: the call ends in \<open>exit(EXIT_FAILURE)\<close>. If the call
  returns, the argument has taken its default at the end of the scan (a null default
  included), and \<open>get_kwarg\<close> on \<open>n\<close> returns that default. What the bare token
  \<open>--n\<close> itself does is not part of the statement.
\<close>

theorem absent_value_is_unmatched:
  assumes "i < length (arguments p)" and "name (arguments p ! i) = n"
      and "\<forall>j<i. name (arguments p ! j) \<noteq> n"
      and "type (arguments p ! i) = KWARG"
      and "scan_tokens (drop 1 (take (nat argc) argv)) (arguments p, stdout io) = (None, args1, out1)"
      and "val (args1 ! i) = None"
  shows "(required (arguments p ! i) \<noteq> 0 \<longrightarrow>
            fst (parse_args p argc argv io) = Some (Exit EXIT_FAILURE)) \<and>
         (fst (parse_args p argc argv io) = None \<longrightarrow>
            val (arguments (fst (snd (parse_args p argc argv io))) ! i) = def_val (arguments p ! i) \<and>
            get_kwarg (fst (snd (parse_args p argc argv io))) n = def_val (arguments p ! i))"
proof (intro conjI impI)
  let ?R = "parse_args p argc argv io"
  have ended: "fst (scan_tokens (drop 1 (take (nat argc) argv)) (arguments p, stdout io)) = None"
    and args1: "fst (snd (scan_tokens (drop 1 (take (nat argc) argv)) (arguments p, stdout io))) = args1"
    using assms(5) by simp_all
  have same1: "map clear args1 = map clear (arguments p)"
    using scan_tokens_clear [of "drop 1 (take (nat argc) argv)" "(arguments p, stdout io)"] args1
    by simp
  have len1: "i < length args1" using map_clear_length [OF same1] assms(1) by simp
  have ending: "fst ?R = fst (check_required [] args1 (stderr io))"
    using parse_args_arguments(2) [OF ended] args1 by simp
  have final: "arguments (fst (snd ?R)) = fst (snd (check_required [] args1 (stderr io)))"
    using parse_args_arguments(1) [OF ended] args1 by simp
  { assume "required (arguments p ! i) \<noteq> 0"
    then have "required (args1 ! i) \<noteq> 0" using map_clear_nth(4) [OF same1 len1] by simp
    with assms(6) have "missing (args1 ! i)" by (simp add: missing_def)
    with len1 have "\<exists>a\<in>set args1. missing a" using nth_mem by blast
    then show "fst ?R = Some (Exit EXIT_FAILURE)" by (simp add: ending check_required_ending)
  }
  assume returns: "fst ?R = None"
  then have "fst (check_required [] args1 (stderr io)) = None" by (simp add: ending)
  then have "fst (snd (check_required [] args1 (stderr io))) = map take_default args1"
    by (rule check_required_defaults)
  then have "arguments (fst (snd ?R)) ! i = take_default (args1 ! i)"
    using final len1 by simp
  moreover have "def_val (args1 ! i) = def_val (arguments p ! i)"
    using map_clear_nth(5) [OF same1 len1] .
  ultimately have stored: "arguments (fst (snd ?R)) ! i = (args1 ! i)\<lparr>val := def_val (arguments p ! i)\<rparr>"
    using assms(6) by (simp add: take_default_def)
  then show "val (arguments (fst (snd ?R)) ! i) = def_val (arguments p ! i)" by simp
  have same: "map clear (arguments (fst (snd ?R))) = map clear (arguments p)"
    by (rule parse_args_clear)
  have "find (\<lambda>a. name a = n) (arguments (fst (snd ?R))) = Some (arguments (fst (snd ?R)) ! i)"
    using same assms(1,2,3) by (rule first_named_transfer)
  moreover have "type (args1 ! i) = KWARG"
    using map_clear_nth(3) [OF same1 len1] assms(4) by simp
  moreover have "def_val (args1 ! i) = def_val (arguments p ! i)"
    using map_clear_nth(5) [OF same1 len1] .
  ultimately show "get_kwarg (fst (snd ?R)) n = def_val (arguments p ! i)"
    using stored by (simp add: get_kwarg_def)
qed

theorem absent_value_is_unmatched_witness:
  "fst (parse_args
      (add_kwarg (new_parser ''prog'' ''u'' ''d'' ''e'' 1) CHR ''o'' ''output'' 1 (Some ''out.txt'') None)
      2 [''prog'', ''-h''] \<lparr>stdout = [], stderr = []\<rparr>) = Some (Exit EXIT_FAILURE) \<and>
   fst (parse_args
      (add_kwarg (new_parser ''prog'' ''u'' ''d'' ''e'' 1) CHR ''o'' ''output'' 0 (Some ''out.txt'') None)
      2 [''prog'', ''-h''] \<lparr>stdout = [], stderr = []\<rparr>) = None \<and>
   get_kwarg (fst (snd (parse_args
      (add_kwarg (new_parser ''prog'' ''u'' ''d'' ''e'' 1) CHR ''o'' ''output'' 0 (Some ''out.txt'') None)
      2 [''prog'', ''-h''] \<lparr>stdout = [], stderr = []\<rparr>))) ''output'' = Some ''out.txt''"
proof -
  let ?io = "\<lparr>stdout = [], stderr = []\<rparr>"
  let ?argv = "[''prog'', ''-h'']"
  define table where "table r =
      [\<lparr>name = ''help'', sym = CHR ''h'', required = 0,
        help_msg = Some ''Shows this help Menu'', type = FLAG, count = None,
        def_val = None, val = Some ''true''\<rparr>,
       \<lparr>name = ''output'', sym = CHR ''o'', required = r, help_msg = None, type = KWARG,
        count = None, def_val = Some ''out.txt'', val = None\<rparr>]" for r :: int
  let ?p = "\<lambda>r. add_kwarg (new_parser ''prog'' ''u'' ''d'' ''e'' 1) CHR ''o'' ''output'' r (Some ''out.txt'') None"
  have decl: "1 < length (arguments (?p r))" "name (arguments (?p r) ! 1) = ''output''"
    "\<forall>j<1. name (arguments (?p r) ! j) \<noteq> ''output''" "type (arguments (?p r) ! 1) = KWARG"
    "required (arguments (?p r) ! 1) = r" "def_val (arguments (?p r) ! 1) = Some ''out.txt''" for r
    by (simp_all add: new_parser_def add_kwarg_def add_flag_def)
  have scan: "scan_tokens (drop 1 (take (nat 2) ?argv)) (arguments (?p r), stdout ?io) =
      (None, table r, [])" for r
    by (simp add: table_def new_parser_def add_kwarg_def add_flag_def parse_token_def
          split_eq_def store_dup_def)
  have absent: "val (table r ! 1) = None" for r by (simp add: table_def)
  have "fst (parse_args (?p 1) 2 ?argv ?io) = Some (Exit EXIT_FAILURE)"
    using absent_value_is_unmatched [OF decl(1-4) scan absent, of 1] decl(5) [of 1] by simp
  moreover have returns: "fst (parse_args (?p 0) 2 ?argv ?io) = None"
    by (simp add: parse_args_def new_parser_def add_kwarg_def add_flag_def parse_token_def
          split_eq_def store_dup_def missing_def)
  moreover have "get_kwarg (fst (snd (parse_args (?p 0) 2 ?argv ?io))) ''output'' = Some ''out.txt''"
    using absent_value_is_unmatched [OF decl(1-4) scan absent, of 0] returns decl(6) [of 0]
    by simp
  ultimately show ?thesis by simp
qed

text \<open>
  A value that differs from never having matched is stored with the \<open>=\<close>: the long
  token \<open>--n=v\<close>, the empty \<open>v\<close> too, changes this argument only and stores \<open>v\<close>,
  which is not replaced by the default and does not count as missing.
\<close>

lemma long_form_with_equals:
  assumes "i < length (arguments p)" and "name (arguments p ! i) = n"
      and "\<forall>j<i. name (arguments p ! j) \<noteq> n"
      and "type (arguments p ! i) = KWARG" and "CHR ''='' \<notin> set n"
  shows "parse_token (''--'' @ n @ ''='' @ v) (arguments p, stdout io) =
           (None, (arguments p)[i := (arguments p ! i)\<lparr>val := Some v\<rparr>], stdout io) \<and>
         fst (parse_args p 2 [prog, ''--'' @ n @ ''='' @ v] io) \<noteq> Some Strdup_NULL \<and>
         (fst (parse_args p 2 [prog, ''--'' @ n @ ''='' @ v] io) = None \<longleftrightarrow>
            (\<forall>j<length (arguments p). j \<noteq> i \<longrightarrow>
               \<not> (required (arguments p ! j) \<noteq> 0 \<and> val (arguments p ! j) = None))) \<and>
         val (arguments (fst (snd (parse_args p 2 [prog, ''--'' @ n @ ''='' @ v] io))) ! i) = Some v \<and>
         get_kwarg (fst (snd (parse_args p 2 [prog, ''--'' @ n @ ''='' @ v] io))) n = Some v"
proof -
  let ?tok = "''--'' @ n @ ''='' @ v"
  let ?A1 = "(arguments p)[i := (arguments p ! i)\<lparr>val := Some v\<rparr>]"
  let ?R = "parse_args p 2 [prog, ?tok] io"
  have "assign_name_kind n (Some v) ?A1 =
      (None, ?A1[i := (?A1 ! i)\<lparr>val := Some (if type (?A1 ! i) = FLAG then ''true'' else v)\<rparr>])"
  proof (rule assign_name_kind_first)
    show "i < length ?A1" using assms(1) by simp
    show "name (?A1 ! i) = n" using assms(1,2) by simp
    show "type (?A1 ! i) \<noteq> ARG" using assms(1,4) by simp
    show "type (?A1 ! i) = FLAG \<or> Some v = Some v" by simp
    show "\<forall>j<i. name (?A1 ! j) = n \<longrightarrow> type (?A1 ! j) = ARG" using assms(1,3) by simp
  qed
  then have second: "snd (assign_name_kind n (Some v) ?A1) = ?A1" using assms(1,4) by simp
  have tok: "parse_token ?tok (arguments p, stdout io) = (None, ?A1, stdout io)"
    using long_token_value [OF assms(1,2,3,5), of v "stdout io"] second by simp
  have R: "?R = (fst (check_required [] ?A1 (stderr io)),
            p\<lparr>arguments := fst (snd (check_required [] ?A1 (stderr io)))\<rparr>,
            io\<lparr>stdout := stdout io, stderr := snd (snd (check_required [] ?A1 (stderr io)))\<rparr>)"
    using tok by (rule parse_args_single)
  have "fst (snd (check_required [] ?A1 (stderr io))) ! i = ?A1 ! i"
    using assms(1) by (intro check_required_keeps) simp_all
  with R assms(1) have final: "arguments (fst (snd ?R)) ! i = (arguments p ! i)\<lparr>val := Some v\<rparr>"
    by simp
  have same: "map clear (arguments (fst (snd ?R))) = map clear (arguments p)"
    by (rule parse_args_clear)
  have "find (\<lambda>a. name a = n) (arguments (fst (snd ?R))) = Some (arguments (fst (snd ?R)) ! i)"
    using same assms(1,2,3) by (rule first_named_transfer)
  with final assms(4) have getter: "get_kwarg (fst (snd ?R)) n = Some v"
    by (simp add: get_kwarg_def)
  have no_fault: "fst ?R \<noteq> Some Strdup_NULL"
    using R by (simp add: check_required_no_strdup)
  have "(\<exists>a\<in>set ?A1. missing a) \<longleftrightarrow>
        (\<exists>j<length (arguments p). j \<noteq> i \<and> missing (arguments p ! j))"
  proof
    assume "\<exists>a\<in>set ?A1. missing a"
    then obtain j where j: "j < length ?A1" "missing (?A1 ! j)"
      by (auto simp: in_set_conv_nth)
    have "j \<noteq> i"
    proof
      assume "j = i"
      with j assms(1) show False by (simp add: missing_def)
    qed
    with j show "\<exists>j<length (arguments p). j \<noteq> i \<and> missing (arguments p ! j)" by auto
  next
    assume "\<exists>j<length (arguments p). j \<noteq> i \<and> missing (arguments p ! j)"
    then obtain j where j: "j < length (arguments p)" "j \<noteq> i" "missing (arguments p ! j)"
      by blast
    then have "j < length ?A1" "missing (?A1 ! j)" by simp_all
    then show "\<exists>a\<in>set ?A1. missing a" using nth_mem by blast
  qed
  then have "fst ?R = None \<longleftrightarrow>
      (\<forall>j<length (arguments p). j \<noteq> i \<longrightarrow>
         \<not> (required (arguments p ! j) \<noteq> 0 \<and> val (arguments p ! j) = None))"
    using R by (auto simp: check_required_ending missing_def)
  with tok no_fault final getter show ?thesis by simp
qed

subsection \<open>C4: a flag given in the long form without a value\<close>

text \<open>
  C4. The claim is that \<open>get_flag\<close> is true after parsing whenever the flag was
  mentioned as \<open>--name\<close>, as \<open>--name=value\<close> or by its symbol in a short token. At
  the input below, the automatic \<open>help\<close> flag and the token \<open>--help\<close>, the code does
  otherwise: the first loop of the long form (line 388) finds the flag and calls
  \<open>strdup(value)\<close> with a null \<open>value\<close>, so the call does not come back and the flag
  is not set.
\<close>

theorem long_flag_without_value:
  "parse_args (new_parser ''my_program'' ''usage'' ''description'' ''epilog'' 1) 2
     [''my_program'', ''--help''] \<lparr>stdout = [], stderr = []\<rparr> =
   (Some Strdup_NULL, new_parser ''my_program'' ''usage'' ''description'' ''epilog'' 1,
    \<lparr>stdout = [], stderr = []\<rparr>)"
  by (simp add: parse_args_def new_parser_def add_flag_def parse_token_def split_eq_def
        match_name_def store_dup_def)

text \<open>
  The same flag is set by its symbol and by the long form with a value, where the value
  is not null: the second loop of the long form and the loop of the short form store
  \<open>true\<close> without reading it.
\<close>

lemma short_flag_sets:
  "get_flag (fst (snd (parse_args (new_parser ''my_program'' ''usage'' ''description'' ''epilog'' 1) 2
     [''my_program'', ''-h''] \<lparr>stdout = [], stderr = []\<rparr>))) ''help'' = 1"
  by (simp add: parse_args_def new_parser_def add_flag_def parse_token_def split_eq_def
        store_dup_def missing_def take_default_def get_flag_def)

lemma long_flag_with_value_sets:
  "get_flag (fst (snd (parse_args (new_parser ''my_program'' ''usage'' ''description'' ''epilog'' 1) 2
     [''my_program'', ''--help=no''] \<lparr>stdout = [], stderr = []\<rparr>))) ''help'' = 1"
  by (simp add: parse_args_def new_parser_def add_flag_def parse_token_def split_eq_def
        match_name_def store_dup_def missing_def take_default_def get_flag_def)

subsection \<open>C5: the default of a keyword argument that no token matched\<close>

text \<open>
  C5. Let the argument at index \<open>i\<close> be a keyword argument that is not required, has the
  default \<open>d\<close>, has no value before the call and is the first argument of its name, and
  let no token write into it. If \<open>parse_args\<close> returns, then the argument still has no
  value when the scan of the tokens ends, it holds \<open>d\<close> when the call returns (the loop
  after the scan has put the default in), and \<open>get_kwarg\<close> on its name returns \<open>d\<close> as
  it was declared.
\<close>

theorem default_substituted:
  assumes "fst (parse_args p argc argv io) = None"
      and "i < length (arguments p)"
      and "type (arguments p ! i) = KWARG"
      and "required (arguments p ! i) = 0"
      and "def_val (arguments p ! i) = Some d"
      and "val (arguments p ! i) = None"
      and "\<forall>t\<in>set (drop 1 (take (nat argc) argv)). written t (arguments p) i = None"
      and "\<forall>j<i. name (arguments p ! j) \<noteq> name (arguments p ! i)"
  shows "val (fst (snd (scan_tokens (drop 1 (take (nat argc) argv)) (arguments p, stdout io))) ! i) = None \<and>
         val (arguments (fst (snd (parse_args p argc argv io))) ! i) = Some d \<and>
         get_kwarg (fst (snd (parse_args p argc argv io))) (name (arguments p ! i)) = Some d"
proof -
  let ?toks = "drop 1 (take (nat argc) argv)"
  let ?A1 = "fst (snd (scan_tokens ?toks (arguments p, stdout io)))"
  let ?R = "parse_args p argc argv io"
  have ended: "fst (scan_tokens ?toks (arguments p, stdout io)) = None"
    using assms(1) by (intro scan_completed) simp
  then have "val (?A1 ! i) =
      foldl overwrite (val (arguments p ! i)) (map (\<lambda>t. written t (arguments p) i) ?toks)"
    using assms(2) by (rule scan_tokens_written)
  also have "\<dots> = val (arguments p ! i)"
    using assms(7) by (intro overwrite_none) simp
  finally have scan: "val (?A1 ! i) = None" using assms(6) by simp
  have same1: "map clear ?A1 = map clear (arguments p)"
    using scan_tokens_clear [of ?toks "(arguments p, stdout io)"] by simp
  have len1: "i < length ?A1" using map_clear_length [OF same1] assms(2) by simp
  have "def_val (?A1 ! i) = Some d"
    using map_clear_nth(5) [OF same1 len1] assms(5) by simp
  with scan have "take_default (?A1 ! i) = (?A1 ! i)\<lparr>val := Some d\<rparr>"
    by (simp add: take_default_def)
  moreover have "fst (check_required [] ?A1 (stderr io)) = None"
    using assms(1) by (simp add: parse_args_arguments(2) [OF ended])
  then have "fst (snd (check_required [] ?A1 (stderr io))) = map take_default ?A1"
    by (rule check_required_defaults)
  ultimately have final: "arguments (fst (snd ?R)) ! i = (?A1 ! i)\<lparr>val := Some d\<rparr>"
    using len1 by (simp add: parse_args_arguments(1) [OF ended])
  have same: "map clear (arguments (fst (snd ?R))) = map clear (arguments p)"
    by (rule parse_args_clear)
  have "find (\<lambda>a. name a = name (arguments p ! i)) (arguments (fst (snd ?R))) =
      Some (arguments (fst (snd ?R)) ! i)"
    using same assms(2) _ assms(8) by (rule first_named_transfer) simp
  moreover have "type (?A1 ! i) = KWARG"
    using map_clear_nth(3) [OF same1 len1] assms(3) by simp
  ultimately have "get_kwarg (fst (snd ?R)) (name (arguments p ! i)) = Some d"
    using final by (simp add: get_kwarg_def)
  with scan final show ?thesis by simp
qed

theorem default_substituted_witness:
  "val (fst (snd (scan_tokens [''-h'', ''--other=1'']
      (arguments (add_kwarg (new_parser ''prog'' ''u'' ''d'' ''e'' 1)
         CHR ''o'' ''output'' 0 (Some ''out.txt'') None), []))) ! 1) = None \<and>
   get_kwarg (fst (snd (parse_args
      (add_kwarg (new_parser ''prog'' ''u'' ''d'' ''e'' 1)
         CHR ''o'' ''output'' 0 (Some ''out.txt'') None)
      3 [''prog'', ''-h'', ''--other=1''] \<lparr>stdout = [], stderr = []\<rparr>))) ''output'' =
     Some ''out.txt''"
proof -
  let ?p = "add_kwarg (new_parser ''prog'' ''u'' ''d'' ''e'' 1)
         CHR ''o'' ''output'' 0 (Some ''out.txt'') None"
  let ?io = "\<lparr>stdout = [], stderr = []\<rparr>"
  have args: "arguments ?p =
      [\<lparr>name = ''help'', sym = CHR ''h'', required = 0,
        help_msg = Some ''Shows this help Menu'', type = FLAG, count = None,
        def_val = None, val = None\<rparr>,
       \<lparr>name = ''output'', sym = CHR ''o'', required = 0, help_msg = None, type = KWARG,
        count = None, def_val = Some ''out.txt'', val = None\<rparr>]"
    by (simp add: new_parser_def add_kwarg_def add_flag_def)
  have toks: "drop 1 (take (nat 3) [''prog'', ''-h'', ''--other=1'']) = [''-h'', ''--other=1'']"
    by simp
  have returns: "fst (parse_args ?p 3 [''prog'', ''-h'', ''--other=1''] ?io) = None"
    by (simp add: parse_args_def args parse_token_def split_eq_def match_name_def store_dup_def
          missing_def)
  have unmatched: "\<forall>t\<in>set (drop 1 (take (nat 3) [''prog'', ''-h'', ''--other=1''])).
      written t (arguments ?p) 1 = None"
    by (simp add: args written_def clear_def parse_token_def split_eq_def match_name_def
          store_dup_def)
  have "1 < length (arguments ?p)" "type (arguments ?p ! 1) = KWARG"
    "required (arguments ?p ! 1) = 0" "def_val (arguments ?p ! 1) = Some ''out.txt''"
    "val (arguments ?p ! 1) = None"
    "\<forall>j<1. name (arguments ?p ! j) \<noteq> name (arguments ?p ! 1)"
    by (simp_all add: args)
  from default_substituted [OF returns this(1-5) unmatched this(6)] toks args
  show ?thesis by simp
qed

subsection \<open>C6: the last matching token wins\<close>

text \<open>
  C6. What a token writes into the argument at index \<open>i\<close> is settled by the token and
  the declarations alone (\<open>written\<close>). Take a call of \<open>parse_args\<close> without undefined
  behaviour whose tokens are \<open>before\<close>, then \<open>tok\<close>, then \<open>after\<close>, where \<open>tok\<close>
  writes \<open>v\<close> into argument \<open>i\<close> and no token of \<open>after\<close> writes into it. Whatever
  the tokens of \<open>before\<close> have written there, argument \<open>i\<close> holds \<open>v\<close> when the scan
  ends and when the call ends: each match overwrites the value of the matches before it,
  and the last one stays.
\<close>

theorem last_write_wins:
  assumes "fst (parse_args p argc argv io) \<noteq> Some Strdup_NULL"
      and "drop 1 (take (nat argc) argv) = before @ tok # after"
      and "i < length (arguments p)"
      and "written tok (arguments p) i = Some v"
      and "\<forall>t\<in>set after. written t (arguments p) i = None"
  shows "val (fst (snd (scan_tokens (before @ tok # after) (arguments p, stdout io))) ! i) = Some v \<and>
         val (arguments (fst (snd (parse_args p argc argv io))) ! i) = Some v"
proof -
  let ?toks = "drop 1 (take (nat argc) argv)"
  let ?A1 = "fst (snd (scan_tokens ?toks (arguments p, stdout io)))"
  have ended: "fst (scan_tokens ?toks (arguments p, stdout io)) = None"
    using assms(1) by (rule scan_completed)
  then have "val (?A1 ! i) =
      foldl overwrite (val (arguments p ! i)) (map (\<lambda>t. written t (arguments p) i) ?toks)"
    using assms(3) by (rule scan_tokens_written)
  also have "map (\<lambda>t. written t (arguments p) i) ?toks =
      map (\<lambda>t. written t (arguments p) i) before @ Some v #
        map (\<lambda>t. written t (arguments p) i) after"
    using assms(2,4) by simp
  also have "foldl overwrite (val (arguments p ! i)) \<dots> = Some v"
    using assms(5) by (intro overwrite_last) simp
  finally have scan: "val (?A1 ! i) = Some v" .
  have "length ?A1 = length (arguments p)"
    using map_clear_length [OF scan_tokens_clear [of ?toks "(arguments p, stdout io)"]] by simp
  with assms(3) scan have "fst (snd (check_required [] ?A1 (stderr io))) ! i = ?A1 ! i"
    by (intro check_required_keeps) simp_all
  with scan have "val (arguments (fst (snd (parse_args p argc argv io))) ! i) = Some v"
    by (simp add: parse_args_arguments(1) [OF ended])
  with scan assms(2) show ?thesis by simp
qed

theorem last_write_wins_witness:
  "val (arguments (fst (snd (parse_args
      (add_kwarg (new_parser ''prog'' ''u'' ''d'' ''e'' 1)
         CHR ''o'' ''output'' 0 (Some ''out.txt'') None)
      5 [''prog'', ''--output=a'', ''-h'', ''-o=b'', ''zzz''] \<lparr>stdout = [], stderr = []\<rparr>))) ! 1) =
     Some ''b''"
proof -
  let ?p = "add_kwarg (new_parser ''prog'' ''u'' ''d'' ''e'' 1)
         CHR ''o'' ''output'' 0 (Some ''out.txt'') None"
  let ?io = "\<lparr>stdout = [], stderr = []\<rparr>"
  let ?argv = "[''prog'', ''--output=a'', ''-h'', ''-o=b'', ''zzz'']"
  have args: "arguments ?p =
      [\<lparr>name = ''help'', sym = CHR ''h'', required = 0,
        help_msg = Some ''Shows this help Menu'', type = FLAG, count = None,
        def_val = None, val = None\<rparr>,
       \<lparr>name = ''output'', sym = CHR ''o'', required = 0, help_msg = None, type = KWARG,
        count = None, def_val = Some ''out.txt'', val = None\<rparr>]"
    by (simp add: new_parser_def add_kwarg_def add_flag_def)
  have no_fault: "fst (parse_args ?p 5 ?argv ?io) \<noteq> Some Strdup_NULL"
    by (simp add: parse_args_def args parse_token_def split_eq_def match_name_def store_dup_def
          missing_def)
  have toks: "drop 1 (take (nat 5) ?argv) = [''--output=a'', ''-h''] @ ''-o=b'' # [''zzz'']"
    by simp
  have "1 < length (arguments ?p)" by (simp add: args)
  moreover have "written ''-o=b'' (arguments ?p) 1 = Some ''b''"
    by (simp add: args written_def clear_def parse_token_def split_eq_def store_dup_def)
  moreover have "\<forall>t\<in>set [''zzz'']. written t (arguments ?p) 1 = None"
    by (simp add: args written_def clear_def parse_token_def split_eq_def match_name_def)
  ultimately show ?thesis
    using last_write_wins [OF no_fault toks] by simp
qed

subsection \<open>C7: the echo of a bare token\<close>

text \<open>
  C7, as the claim is written, fails: the token is printed after it has been cut at its
  first \<open>=\<close>, so for \<open>file=a.txt\<close> the standard output receives \<open>file\<close>, not the raw
  token.
\<close>

theorem bare_token_echo_counterexample:
  "fst (parse_args (new_parser ''p'' ''u'' ''d'' ''e'' 0) 2 [''p'', ''file=a.txt'']
          \<lparr>stdout = [], stderr = []\<rparr>) = None \<and>
   stdout (snd (snd (parse_args (new_parser ''p'' ''u'' ''d'' ''e'' 0) 2 [''p'', ''file=a.txt'']
          \<lparr>stdout = [], stderr = []\<rparr>))) = ''file'' \<and>
   stdout (snd (snd (parse_args (new_parser ''p'' ''u'' ''d'' ''e'' 0) 2 [''p'', ''file=a.txt'']
          \<lparr>stdout = [], stderr = []\<rparr>))) \<noteq> ''file=a.txt''"
  by (simp add: parse_args_def new_parser_def parse_token_def split_eq_def match_name_def)

text \<open>
  C7, amended. For every token without a leading \<open>-\<close> that a parse pass meets, the
  parser prints the text of the token before its first \<open>=\<close> (the whole token when it has
  none), whether or not the token matches a declared argument, and this is observed of
  every pass whose scan comes to its end: the call has then sent to the standard output
  exactly these texts, in the order of the tokens, and nothing for a token that starts
  with \<open>-\<close>. The iteration on such a token comes to its end, with its text, whenever the
  token holds an \<open>=\<close> or is the name of no argument. What is observed of a pass that
  ends in \<open>strdup(NULL)\<close> is not part of the statement.
\<close>

theorem bare_token_echo:
  "(take 1 tok \<noteq> ''-'' \<and> (CHR ''='' \<in> set tok \<or> (\<forall>a\<in>set args. name a \<noteq> tok)) \<longrightarrow>
      parse_token tok (args, out) =
        (None, fst (snd (parse_token tok (args, out))),
         out @ takeWhile (\<lambda>c. c \<noteq> CHR ''='') tok)) \<and>
   (take 1 tok \<noteq> ''-'' \<and> fst (parse_token tok (args, out)) = None \<longrightarrow>
      snd (snd (parse_token tok (args, out))) = out @ takeWhile (\<lambda>c. c \<noteq> CHR ''='') tok) \<and>
   (take 1 tok = ''-'' \<longrightarrow> snd (snd (parse_token tok (args, out))) = out) \<and>
   (fst (scan_tokens (drop 1 (take (nat argc) argv)) (arguments p, stdout io)) = None \<longrightarrow>
      stdout (snd (snd (parse_args p argc argv io))) =
        stdout io @ concat (map (takeWhile (\<lambda>c. c \<noteq> CHR ''=''))
                        (filter (\<lambda>t. take 1 t \<noteq> ''-'') (drop 1 (take (nat argc) argv)))))"
proof (intro conjI impI)
  assume a: "take 1 tok \<noteq> ''-'' \<and> (CHR ''='' \<in> set tok \<or> (\<forall>a\<in>set args. name a \<noteq> tok))"
  then have "fst (parse_token tok (args, out)) = None" by (intro bare_token_completes) simp_all
  with a show "parse_token tok (args, out) =
        (None, fst (snd (parse_token tok (args, out))),
         out @ takeWhile (\<lambda>c. c \<noteq> CHR ''='') tok)"
    using parse_token_stdout [of tok args out] by (simp add: prod_eq_iff)
next
  assume "take 1 tok \<noteq> ''-'' \<and> fst (parse_token tok (args, out)) = None"
  then show "snd (snd (parse_token tok (args, out))) = out @ takeWhile (\<lambda>c. c \<noteq> CHR ''='') tok"
    by (simp add: parse_token_stdout)
next
  assume "take 1 tok = ''-''"
  then show "snd (snd (parse_token tok (args, out))) = out" by (simp add: parse_token_stdout)
next
  assume "fst (scan_tokens (drop 1 (take (nat argc) argv)) (arguments p, stdout io)) = None"
  then show "stdout (snd (snd (parse_args p argc argv io))) =
        stdout io @ concat (map (takeWhile (\<lambda>c. c \<noteq> CHR ''=''))
                        (filter (\<lambda>t. take 1 t \<noteq> ''-'') (drop 1 (take (nat argc) argv))))"
    by (simp add: parse_args_stdout scan_tokens_stdout)
qed

theorem bare_token_echo_witness:
  "fst (parse_token ''mode=fast''
     (arguments (add_kwarg (new_parser ''prog'' ''u'' ''d'' ''e'' 1) CHR ''m'' ''mode'' 0 None None), ''>'')) =
     None \<and>
   snd (snd (parse_token ''mode=fast''
     (arguments (add_kwarg (new_parser ''prog'' ''u'' ''d'' ''e'' 1) CHR ''m'' ''mode'' 0 None None), ''>''))) =
     ''>mode'' \<and>
   snd (snd (parse_token ''in.txt''
     (arguments (add_kwarg (new_parser ''prog'' ''u'' ''d'' ''e'' 1) CHR ''m'' ''mode'' 0 None None), ''>''))) =
     ''>in.txt'' \<and>
   snd (snd (parse_token ''-h''
     (arguments (add_kwarg (new_parser ''prog'' ''u'' ''d'' ''e'' 1) CHR ''m'' ''mode'' 0 None None), ''>''))) =
     ''>'' \<and>
   stdout (snd (snd (parse_args
     (add_kwarg (new_parser ''prog'' ''u'' ''d'' ''e'' 1) CHR ''m'' ''mode'' 0 None None) 5
     [''prog'', ''in.txt'', ''-h'', ''mode=fast'', ''--x=1''] \<lparr>stdout = [], stderr = []\<rparr>))) =
     ''in.txtmode''"
proof -
  let ?p = "add_kwarg (new_parser ''prog'' ''u'' ''d'' ''e'' 1) CHR ''m'' ''mode'' 0 None None"
  let ?io = "\<lparr>stdout = [], stderr = []\<rparr>"
  let ?argv = "[''prog'', ''in.txt'', ''-h'', ''mode=fast'', ''--x=1'']"
  let ?cut = "takeWhile (\<lambda>c. c \<noteq> CHR ''='')"
  have args: "arguments ?p =
      [\<lparr>name = ''help'', sym = CHR ''h'', required = 0,
        help_msg = Some ''Shows this help Menu'', type = FLAG, count = None,
        def_val = None, val = None\<rparr>,
       \<lparr>name = ''mode'', sym = CHR ''m'', required = 0, help_msg = None, type = KWARG,
        count = None, def_val = None, val = None\<rparr>]"
    by (simp add: new_parser_def add_kwarg_def add_flag_def)
  have matched: "take 1 ''mode=fast'' \<noteq> ''-'' \<and>
      (CHR ''='' \<in> set ''mode=fast'' \<or> (\<forall>a\<in>set (arguments ?p). name a \<noteq> ''mode=fast''))"
    by simp
  have unmatched: "take 1 ''in.txt'' \<noteq> ''-'' \<and>
      (CHR ''='' \<in> set ''in.txt'' \<or> (\<forall>a\<in>set (arguments ?p). name a \<noteq> ''in.txt''))"
    by (simp add: args)
  have dash: "take 1 ''-h'' = ''-''" by simp
  have ended: "fst (scan_tokens (drop 1 (take (nat 5) ?argv)) (arguments ?p, stdout ?io)) = None"
    by (simp add: args parse_token_def split_eq_def match_name_def store_dup_def)
  have "parse_token ''mode=fast'' (arguments ?p, ''>'') =
      (None, fst (snd (parse_token ''mode=fast'' (arguments ?p, ''>''))), ''>'' @ ?cut ''mode=fast'')"
    using bare_token_echo [of "''mode=fast''" "arguments ?p" "''>''" 5 ?argv ?p ?io] matched
    by blast
  then have one: "fst (parse_token ''mode=fast'' (arguments ?p, ''>'')) = None"
    "snd (snd (parse_token ''mode=fast'' (arguments ?p, ''>''))) = ''>'' @ ?cut ''mode=fast''"
    by (metis fst_conv, metis snd_conv)
  have "parse_token ''in.txt'' (arguments ?p, ''>'') =
      (None, fst (snd (parse_token ''in.txt'' (arguments ?p, ''>''))), ''>'' @ ?cut ''in.txt'')"
    using bare_token_echo [of "''in.txt''" "arguments ?p" "''>''" 5 ?argv ?p ?io] unmatched
    by blast
  then have two: "snd (snd (parse_token ''in.txt'' (arguments ?p, ''>''))) = ''>'' @ ?cut ''in.txt''"
    by (metis snd_conv)
  have three: "snd (snd (parse_token ''-h'' (arguments ?p, ''>''))) = ''>''"
    using bare_token_echo [of "''-h''" "arguments ?p" "''>''" 5 ?argv ?p ?io] dash
    by blast
  have four: "stdout (snd (snd (parse_args ?p 5 ?argv ?io))) =
      stdout ?io @ concat (map ?cut (filter (\<lambda>t. take 1 t \<noteq> ''-'') (drop 1 (take (nat 5) ?argv))))"
    using bare_token_echo [of "''-h''" "arguments ?p" "''>''" 5 ?argv ?p ?io] ended
    by blast
  show ?thesis by (simp add: one two three four)
qed

subsection \<open>C8: the getters check the kind\<close>

text \<open>
  C8. A name that is declared only under other kinds is not found: \<open>get_flag\<close> returns
  \<open>0\<close>, \<open>get_kwarg\<close> and \<open>get_arg\<close> return \<open>NULL\<close>, whatever value is stored. In
  particular, after a keyword argument and then a flag have been declared under one name
  \<open>m\<close> (which is not the name of the automatic \<open>help\<close> flag when that flag is there),
  \<open>get_flag\<close> on \<open>m\<close> is \<open>0\<close>, before parsing and after parsing any tokens.
\<close>

theorem getters_check_kind:
  "((\<forall>a\<in>set (arguments p). name a = n \<longrightarrow> type a \<noteq> FLAG) \<longrightarrow> get_flag p n = 0) \<and>
   ((\<forall>a\<in>set (arguments p). name a = n \<longrightarrow> type a \<noteq> KWARG) \<longrightarrow> get_kwarg p n = None) \<and>
   ((\<forall>a\<in>set (arguments p). name a = n \<longrightarrow> type a \<noteq> ARG) \<longrightarrow> get_arg p n = None) \<and>
   ((add_help \<noteq> 0 \<longrightarrow> m \<noteq> ''help'') \<longrightarrow>
      get_flag (add_flag (add_kwarg (new_parser prog usg descr epi add_help) s1 m req d h1) s2 m h2) m = 0 \<and>
      get_flag (fst (snd (parse_args
        (add_flag (add_kwarg (new_parser prog usg descr epi add_help) s1 m req d h1) s2 m h2)
        argc argv io))) m = 0)"
proof (intro conjI impI)
  assume "\<forall>a\<in>set (arguments p). name a = n \<longrightarrow> type a \<noteq> FLAG"
  from find_name_kind [OF this] show "get_flag p n = 0"
    by (auto simp: get_flag_def)
next
  assume "\<forall>a\<in>set (arguments p). name a = n \<longrightarrow> type a \<noteq> KWARG"
  from find_name_kind [OF this] show "get_kwarg p n = None"
    by (auto simp: get_kwarg_def)
next
  assume "\<forall>a\<in>set (arguments p). name a = n \<longrightarrow> type a \<noteq> ARG"
  from find_name_kind [OF this] show "get_arg p n = None"
    by (auto simp: get_arg_def)
next
  let ?P = "add_flag (add_kwarg (new_parser prog usg descr epi add_help) s1 m req d h1) s2 m h2"
  assume "add_help \<noteq> 0 \<longrightarrow> m \<noteq> ''help''"
  from kwarg_then_flag_first [OF this] obtain i where
    i: "i < length (arguments ?P)" "name (arguments ?P ! i) = m" and
    kind: "type (arguments ?P ! i) = KWARG" and
    first: "\<forall>j<i. name (arguments ?P ! j) \<noteq> m"
    by blast
  { fix q :: ArgumentParser assume same: "map clear (arguments q) = map clear (arguments ?P)"
    have "find (\<lambda>a. name a = m) (arguments q) = Some (arguments q ! i)"
      using same i first by (rule first_named_transfer)
    moreover have "type (arguments q ! i) = KWARG"
      using map_clear_nth(3) [OF same, of i] i(1) kind map_clear_length [OF same] by simp
    ultimately have "get_flag q m = 0" by (simp add: get_flag_def)
  } note other = this
  show "get_flag ?P m = 0" by (rule other) simp
  show "get_flag (fst (snd (parse_args ?P argc argv io))) m = 0"
    by (rule other) (rule parse_args_clear)
qed


theorem getters_check_kind_witness:
  "get_flag (add_kwarg (new_parser ''p'' ''u'' ''d'' ''e'' 0) CHR ''o'' ''output'' 0 (Some ''out.txt'') None) ''output'' = 0 \<and>
   get_kwarg (add_flag (new_parser ''p'' ''u'' ''d'' ''e'' 0) CHR ''v'' ''verbose'' None) ''verbose'' = None \<and>
   get_arg (new_parser ''p'' ''u'' ''d'' ''e'' 1) ''help'' = None \<and>
   get_flag (fst (snd (parse_args
        (add_flag (add_kwarg (new_parser ''p'' ''u'' ''d'' ''e'' 1) CHR ''o'' ''mode'' 0 None None) CHR ''m'' ''mode'' None)
        2 [''p'', ''-m''] \<lparr>stdout = [], stderr = []\<rparr>))) ''mode'' = 0"
  using getters_check_kind [of "add_kwarg (new_parser ''p'' ''u'' ''d'' ''e'' 0) CHR ''o'' ''output'' 0 (Some ''out.txt'') None" "''output''" 1 "''mode''"]
    getters_check_kind [of "add_flag (new_parser ''p'' ''u'' ''d'' ''e'' 0) CHR ''v'' ''verbose'' None" "''verbose''" 1 "''mode''"]
    getters_check_kind [of "new_parser ''p'' ''u'' ''d'' ''e'' 1" "''help''" 1 "''mode''"
       "''p''" "''u''" "''d''" "''e''" "CHR ''o''" 0 None None "CHR ''m''" None 2 "[''p'', ''-m'']" "\<lparr>stdout = [], stderr = []\<rparr>"]
  by (simp add: new_parser_def add_kwarg_def add_flag_def)

subsection \<open>C9: a positional argument given in the long form\<close>

text \<open>
  C9. Let the argument at index \<open>i\<close> be a positional one (type \<open>ARG\<close>) and the first
  argument named \<open>n\<close>, where \<open>n\<close> holds no \<open>=\<close>. Parsing the long token \<open>--n=v\<close>
  stores \<open>v\<close> in it: the first loop of the long form assigns to the first argument of
  the name whatever its type. The call has no undefined behaviour, the argument still
  holds \<open>v\<close> when the call ends, and \<open>get_arg\<close> on \<open>n\<close> then returns \<open>v\<close>, although
  \<open>n\<close> never stood as a bare token.
\<close>

theorem positional_by_long_form:
  assumes "i < length (arguments p)" and "name (arguments p ! i) = n"
      and "\<forall>j<i. name (arguments p ! j) \<noteq> n"
      and "type (arguments p ! i) = ARG" and "CHR ''='' \<notin> set n"
  shows "fst (parse_token (''--'' @ n @ ''='' @ v) (arguments p, stdout io)) = None \<and>
         val (fst (snd (parse_token (''--'' @ n @ ''='' @ v) (arguments p, stdout io))) ! i) = Some v \<and>
         fst (parse_args p 2 [prog, ''--'' @ n @ ''='' @ v] io) \<noteq> Some Strdup_NULL \<and>
         val (arguments (fst (snd (parse_args p 2 [prog, ''--'' @ n @ ''='' @ v] io))) ! i) = Some v \<and>
         get_arg (fst (snd (parse_args p 2 [prog, ''--'' @ n @ ''='' @ v] io))) n = Some v"
proof -
  let ?tok = "''--'' @ n @ ''='' @ v"
  let ?A1 = "(arguments p)[i := (arguments p ! i)\<lparr>val := Some v\<rparr>]"
  let ?A2 = "snd (assign_name_kind n (Some v) ?A1)"
  let ?R = "parse_args p 2 [prog, ?tok] io"
  have tok: "parse_token ?tok (arguments p, stdout io) = (None, ?A2, stdout io)"
    using assms(1,2,3,5) by (rule long_token_value)
  have "?A2 ! i = ?A1 ! i"
    using assms(1,4) by (intro assign_name_kind_keeps_ARG) simp_all
  with assms(1) have A2: "?A2 ! i = (arguments p ! i)\<lparr>val := Some v\<rparr>" by simp
  have len: "length ?A2 = length (arguments p)"
    using map_clear_length [OF assign_name_kind_clear [of n "Some v" ?A1]] by simp
  have R: "?R = (fst (check_required [] ?A2 (stderr io)),
            p\<lparr>arguments := fst (snd (check_required [] ?A2 (stderr io)))\<rparr>,
            io\<lparr>stdout := stdout io, stderr := snd (snd (check_required [] ?A2 (stderr io)))\<rparr>)"
    using tok by (rule parse_args_single)
  have "fst (snd (check_required [] ?A2 (stderr io))) ! i = ?A2 ! i"
    using assms(1) len A2 by (intro check_required_keeps) simp_all
  with R A2 have final: "arguments (fst (snd ?R)) ! i = (arguments p ! i)\<lparr>val := Some v\<rparr>"
    by simp
  have same: "map clear (arguments (fst (snd ?R))) = map clear (arguments p)"
    by (rule parse_args_clear)
  have "find (\<lambda>a. name a = n) (arguments (fst (snd ?R))) = Some (arguments (fst (snd ?R)) ! i)"
    using same assms(1,2,3) by (rule first_named_transfer)
  with final assms(4) have "get_arg (fst (snd ?R)) n = Some v"
    by (simp add: get_arg_def)
  moreover have "fst ?R \<noteq> Some Strdup_NULL"
    using R by (simp add: check_required_no_strdup)
  ultimately show ?thesis using tok A2 final by simp
qed

theorem positional_by_long_form_witness:
  "fst (parse_args
      (add_arg (new_parser ''my_program'' ''u'' ''d'' ''e'' 1)
         CHR ''o'' ''output'' 1 1 (Some ''default_output.txt'') (Some ''Output file''))
      2 [''my_program'', ''--output=result.txt''] \<lparr>stdout = [], stderr = []\<rparr>) = None \<and>
   get_arg (fst (snd (parse_args
      (add_arg (new_parser ''my_program'' ''u'' ''d'' ''e'' 1)
         CHR ''o'' ''output'' 1 1 (Some ''default_output.txt'') (Some ''Output file''))
      2 [''my_program'', ''--output=result.txt''] \<lparr>stdout = [], stderr = []\<rparr>))) ''output'' =
     Some ''result.txt''"
proof -
  let ?p = "add_arg (new_parser ''my_program'' ''u'' ''d'' ''e'' 1)
         CHR ''o'' ''output'' 1 1 (Some ''default_output.txt'') (Some ''Output file'')"
  let ?io = "\<lparr>stdout = [], stderr = []\<rparr>"
  have "1 < length (arguments ?p)" "name (arguments ?p ! 1) = ''output''"
    "\<forall>j<1. name (arguments ?p ! j) \<noteq> ''output''" "type (arguments ?p ! 1) = ARG"
    "CHR ''='' \<notin> set ''output''"
    by (simp_all add: new_parser_def add_arg_def add_flag_def)
  from positional_by_long_form [OF this, of "''result.txt''" ?io "''my_program''"]
  have "get_arg (fst (snd (parse_args ?p 2 [''my_program'', ''--output=result.txt''] ?io))) ''output'' =
      Some ''result.txt''" by simp
  moreover have "fst (parse_args ?p 2 [''my_program'', ''--output=result.txt''] ?io) = None"
    by (simp add: parse_args_def new_parser_def add_arg_def add_flag_def parse_token_def
          split_eq_def match_name_def store_dup_def missing_def)
  ultimately show ?thesis by simp
qed

subsection \<open>C10: the symbol of an argument declared without one\<close>

text \<open>
  C10, as the claim is written, fails: two flags are declared with the symbol code 0 and
  the token \<open>-0\<close> is parsed. The inner loop of the short form stops at its first match,
  so the first flag is set and the second is not.
\<close>

theorem zero_symbol_counterexample:
  "fst (parse_args
     (add_flag (add_flag (new_parser ''p'' ''u'' ''d'' ''e'' 0) (CHR 0x00) ''first'' None)
        (CHR 0x00) ''second'' None)
     2 [''p'', ''-0''] \<lparr>stdout = [], stderr = []\<rparr>) = None \<and>
   get_flag (fst (snd (parse_args
     (add_flag (add_flag (new_parser ''p'' ''u'' ''d'' ''e'' 0) (CHR 0x00) ''first'' None)
        (CHR 0x00) ''second'' None)
     2 [''p'', ''-0''] \<lparr>stdout = [], stderr = []\<rparr>))) ''first'' = 1 \<and>
   get_flag (fst (snd (parse_args
     (add_flag (add_flag (new_parser ''p'' ''u'' ''d'' ''e'' 0) (CHR 0x00) ''first'' None)
        (CHR 0x00) ''second'' None)
     2 [''p'', ''-0''] \<lparr>stdout = [], stderr = []\<rparr>))) ''second'' = 0"
  by (simp add: parse_args_def new_parser_def add_flag_def parse_token_def split_eq_def
        store_dup_def missing_def take_default_def get_flag_def)

text \<open>
  C10, amended. An argument declared with the symbol code 0 is stored with the character
  \<open>0\<close> as its symbol, by each of the three declarations, and the parser is the same as
  if \<open>0\<close> had been given as the symbol. Let the argument at index \<open>i\<close> be the first in
  declaration order that has this symbol and is a flag or a keyword argument. Whenever the
  iteration on a short token whose cluster (the text between the dash and the first
  \<open>=\<close>) holds the character \<open>0\<close> comes to its end, argument \<open>i\<close> has a value,
  \<open>true\<close> when it is a flag and the text after the \<open>=\<close> when it is a keyword argument,
  and every other argument stored with \<open>0\<close> is as it was. The iteration comes to its end
  for every short token with an \<open>=\<close>. For \<open>-0=v\<close>, and for \<open>-0\<close> when argument \<open>i\<close>
  is a flag, nothing else in the table changes.
\<close>

theorem zero_symbol_first_match:
  assumes "i < length args" and "sym (args ! i) = CHR ''0''" and "type (args ! i) \<noteq> ARG"
      and "\<forall>j<i. sym (args ! j) = CHR ''0'' \<longrightarrow> type (args ! j) = ARG"
  shows "sym (last (arguments (add_flag p (CHR 0x00) n h))) = CHR ''0'' \<and>
         sym (last (arguments (add_kwarg p (CHR 0x00) n req d h))) = CHR ''0'' \<and>
         sym (last (arguments (add_arg p (CHR 0x00) n req nargs d h))) = CHR ''0'' \<and>
         add_flag p (CHR 0x00) n h = add_flag p CHR ''0'' n h \<and>
         add_kwarg p (CHR 0x00) n req d h = add_kwarg p CHR ''0'' n req d h \<and>
         add_arg p (CHR 0x00) n req nargs d h = add_arg p CHR ''0'' n req nargs d h \<and>
         (take 1 tok = ''-'' \<and> take 2 tok \<noteq> ''--'' \<and>
          CHR ''0'' \<in> set (fst (split_eq (drop 1 tok))) \<and>
          fst (parse_token tok (args, out)) = None \<longrightarrow>
            val (fst (snd (parse_token tok (args, out))) ! i) =
              (if type (args ! i) = FLAG then Some ''true'' else snd (split_eq (drop 1 tok))) \<and>
            val (fst (snd (parse_token tok (args, out))) ! i) \<noteq> None \<and>
            (\<forall>j<length args. j \<noteq> i \<and> sym (args ! j) = CHR ''0'' \<longrightarrow>
               fst (snd (parse_token tok (args, out))) ! j = args ! j)) \<and>
         (take 1 tok = ''-'' \<and> take 2 tok \<noteq> ''--'' \<and> CHR ''='' \<in> set tok \<longrightarrow>
            fst (parse_token tok (args, out)) = None) \<and>
         parse_token (''-0='' @ v) (args, out) =
           (None,
            args[i := (args ! i)\<lparr>val := Some (if type (args ! i) = FLAG then ''true'' else v)\<rparr>],
            out) \<and>
         (type (args ! i) = FLAG \<longrightarrow>
            parse_token ''-0'' (args, out) = (None, args[i := (args ! i)\<lparr>val := Some ''true''\<rparr>], out))"
proof -
  have decl: "sym (last (arguments (add_flag p (CHR 0x00) n h))) = CHR ''0''"
    "sym (last (arguments (add_kwarg p (CHR 0x00) n req d h))) = CHR ''0''"
    "sym (last (arguments (add_arg p (CHR 0x00) n req nargs d h))) = CHR ''0''"
    "add_flag p (CHR 0x00) n h = add_flag p CHR ''0'' n h"
    "add_kwarg p (CHR 0x00) n req d h = add_kwarg p CHR ''0'' n req d h"
    "add_arg p (CHR 0x00) n req nargs d h = add_arg p CHR ''0'' n req nargs d h"
    by (simp_all add: add_flag_def add_kwarg_def add_arg_def)
  have cluster: "val (fst (snd (parse_token tok (args, out))) ! i) =
              (if type (args ! i) = FLAG then Some ''true'' else snd (split_eq (drop 1 tok))) \<and>
            val (fst (snd (parse_token tok (args, out))) ! i) \<noteq> None \<and>
            (\<forall>j<length args. j \<noteq> i \<and> sym (args ! j) = CHR ''0'' \<longrightarrow>
               fst (snd (parse_token tok (args, out))) ! j = args ! j)"
    if short: "take 1 tok = ''-''" "take 2 tok \<noteq> ''--''"
      and zero: "CHR ''0'' \<in> set (fst (split_eq (drop 1 tok)))"
      and ended: "fst (parse_token tok (args, out)) = None"
  proof -
    let ?cs = "fst (split_eq (drop 1 tok))" and ?w = "snd (split_eq (drop 1 tok))"
    note tok = short_token_cluster [OF short, of args out]
    from ended tok have "fst (assign_cluster ?cs ?w args) = None" by simp
    from assign_cluster_first [OF assms this] zero tok
    show ?thesis by auto
  qed
  have completes: "fst (parse_token tok (args, out)) = None"
    if "take 1 tok = ''-''" "take 2 tok \<noteq> ''--''" "CHR ''='' \<in> set tok"
    using that by (rule short_token_with_value)
  have "assign_cluster [CHR ''0''] (Some v) args =
      (None, args[i := (args ! i)\<lparr>val := Some (if type (args ! i) = FLAG then ''true'' else v)\<rparr>])"
    using assms(1,2,3) _ assms(4) by (rule short_token_one) simp
  moreover have "split_eq (''0'' @ CHR ''='' # v) = (''0'', Some v)"
    by (rule split_eq_with) simp
  ultimately have with_value: "parse_token (''-0='' @ v) (args, out) =
      (None, args[i := (args ! i)\<lparr>val := Some (if type (args ! i) = FLAG then ''true'' else v)\<rparr>], out)"
    by (simp add: parse_token_def)
  have bare: "parse_token ''-0'' (args, out) = (None, args[i := (args ! i)\<lparr>val := Some ''true''\<rparr>], out)"
    if flag: "type (args ! i) = FLAG"
  proof -
    have "assign_cluster [CHR ''0''] None args =
        (None, args[i := (args ! i)\<lparr>val := Some (if type (args ! i) = FLAG then ''true'' else [])\<rparr>])"
      using assms(1,2,3) _ assms(4) by (rule short_token_one) (simp add: flag)
    moreover have "split_eq ''0'' = (''0'', None)" by (rule split_eq_without) simp
    ultimately show ?thesis using flag by (simp add: parse_token_def)
  qed
  from decl cluster completes with_value bare show ?thesis by blast
qed

theorem zero_symbol_first_match_witness:
  "val (fst (snd (parse_token ''-h0''
     ([\<lparr>name = ''input'', sym = CHR ''0'', required = 0, help_msg = None, type = ARG,
        count = Some 1, def_val = None, val = None\<rparr>,
       \<lparr>name = ''quiet'', sym = CHR ''0'', required = 0, help_msg = None, type = FLAG,
        count = None, def_val = None, val = None\<rparr>,
       \<lparr>name = ''level'', sym = CHR ''0'', required = 0, help_msg = None, type = KWARG,
        count = None, def_val = None, val = None\<rparr>,
       \<lparr>name = ''help'', sym = CHR ''h'', required = 0, help_msg = None, type = FLAG,
        count = None, def_val = None, val = None\<rparr>], []))) ! 1) = Some ''true'' \<and>
   val (fst (snd (parse_token ''-h0''
     ([\<lparr>name = ''input'', sym = CHR ''0'', required = 0, help_msg = None, type = ARG,
        count = Some 1, def_val = None, val = None\<rparr>,
       \<lparr>name = ''quiet'', sym = CHR ''0'', required = 0, help_msg = None, type = FLAG,
        count = None, def_val = None, val = None\<rparr>,
       \<lparr>name = ''level'', sym = CHR ''0'', required = 0, help_msg = None, type = KWARG,
        count = None, def_val = None, val = None\<rparr>,
       \<lparr>name = ''help'', sym = CHR ''h'', required = 0, help_msg = None, type = FLAG,
        count = None, def_val = None, val = None\<rparr>], []))) ! 2) = None"
proof -
  define table where "table =
      [\<lparr>name = ''input'', sym = CHR ''0'', required = 0, help_msg = None, type = ARG,
        count = Some 1, def_val = None, val = None\<rparr>,
       \<lparr>name = ''quiet'', sym = CHR ''0'', required = 0, help_msg = None, type = FLAG,
        count = None, def_val = None, val = None\<rparr>,
       \<lparr>name = ''level'', sym = CHR ''0'', required = 0, help_msg = None, type = KWARG,
        count = None, def_val = None, val = None\<rparr>,
       \<lparr>name = ''help'', sym = CHR ''h'', required = 0, help_msg = None, type = FLAG,
        count = None, def_val = None, val = None\<rparr>]"
  have first: "1 < length table" "sym (table ! 1) = CHR ''0''" "type (table ! 1) \<noteq> ARG"
    "\<forall>j<1. sym (table ! j) = CHR ''0'' \<longrightarrow> type (table ! j) = ARG"
    by (simp_all add: table_def)
  have tok: "take 1 ''-h0'' = ''-'' \<and> take 2 ''-h0'' \<noteq> ''--'' \<and>
      CHR ''0'' \<in> set (fst (split_eq (drop 1 ''-h0''))) \<and>
      fst (parse_token ''-h0'' (table, [])) = None"
    by (simp add: table_def parse_token_def split_eq_def store_dup_def)
  from zero_symbol_first_match [OF first, where tok = "''-h0''" and out = "[]"] tok
  have "val (fst (snd (parse_token ''-h0'' (table, []))) ! 1) =
          (if type (table ! 1) = FLAG then Some ''true'' else snd (split_eq (drop 1 ''-h0'')))"
    and "\<forall>j<length table. j \<noteq> 1 \<and> sym (table ! j) = CHR ''0'' \<longrightarrow>
          fst (snd (parse_token ''-h0'' (table, []))) ! j = table ! j"
    by blast+
  then have "val (fst (snd (parse_token ''-h0'' (table, []))) ! 1) = Some ''true''"
    and "fst (snd (parse_token ''-h0'' (table, []))) ! 2 = table ! 2"
    by (simp_all add: table_def)
  then show ?thesis by (simp add: table_def)
qed

end
